theory Spec2Isabelle
  imports Complex_Main "HOL-Library.Log_Nat" "HOL-Library.Multiset"
begin

section \<open>Binary64 arithmetic\<close>

text \<open>
  The script \<^verbatim>\<open>plot_dc_analysis.py\<close> computes with pandas columns, whose numeric cells
  are IEEE-754 binary64 numbers. A value is a finite number, an infinity or NaN. A finite
  value is kept as the rational it denotes; the two zeros are identified, as \<^verbatim>\<open>==\<close> does.
  Every arithmetic operation is the exact operation on rationals followed by rounding to
  nearest, ties to even, with 53 significant bits, exponents from \<open>-1074\<close> (subnormals)
  to \<open>971\<close>, and overflow to an infinity.
\<close>

datatype f64 = Fin rat | PInf | NInf | NaN

definition pow2 :: "int \<Rightarrow> rat" where
  "pow2 k = (if 0 \<le> k then 2 ^ nat k else 1 / 2 ^ nat (- k))"

text \<open>\<open>ilog2 q\<close> is the integer \<open>k\<close> with \<open>2\<^sup>k \<le> q < 2\<^sup>k\<^sup>+\<^sup>1\<close>, for positive \<open>q\<close>.\<close>

definition ilog2 :: "rat \<Rightarrow> int" where
  "ilog2 q = (case quotient_of q of (p, d) \<Rightarrow>
     (let k = bitlen p - bitlen d in if pow2 k \<le> q then k else k - 1))"

definition round_even :: "rat \<Rightarrow> int" where
  "round_even q = (let f = \<lfloor>q\<rfloor>; r = q - of_int f in
     if r < 1 / 2 then f else if 1 / 2 < r then f + 1 else if even f then f else f + 1)"

definition rnd :: "rat \<Rightarrow> f64" where
  "rnd q = (if q = 0 then Fin 0 else
     (let e = max (ilog2 \<bar>q\<bar> - 52) (- 1074);
          m = round_even (q / pow2 e)
      in if 971 < e \<or> (e = 971 \<and> 9007199254740992 \<le> \<bar>m\<bar>)
         then (if 0 < q then PInf else NInf)
         else Fin (of_int m * pow2 e)))"

fun fsgn :: "f64 \<Rightarrow> int" where
  "fsgn (Fin a) = (if a = 0 then 0 else if 0 < a then 1 else - 1)"
| "fsgn PInf = 1"
| "fsgn NInf = - 1"
| "fsgn NaN = 0"

definition signed_inf :: "int \<Rightarrow> f64" where
  "signed_inf s = (if s = 0 then NaN else if 0 < s then PInf else NInf)"

fun fadd :: "f64 \<Rightarrow> f64 \<Rightarrow> f64" where
  "fadd (Fin a) (Fin b) = rnd (a + b)"
| "fadd NaN y = NaN"
| "fadd x NaN = NaN"
| "fadd PInf NInf = NaN"
| "fadd NInf PInf = NaN"
| "fadd PInf y = PInf"
| "fadd NInf y = NInf"
| "fadd x PInf = PInf"
| "fadd x NInf = NInf"

fun fmul :: "f64 \<Rightarrow> f64 \<Rightarrow> f64" where
  "fmul (Fin a) (Fin b) = rnd (a * b)"
| "fmul NaN y = NaN"
| "fmul x NaN = NaN"
| "fmul x y = signed_inf (fsgn x * fsgn y)"

text \<open>
  numpy's true division does not raise on a zero divisor: it yields an infinity with the
  sign of the dividend, or NaN for \<open>0 / 0\<close>.
\<close>

fun fdiv :: "f64 \<Rightarrow> f64 \<Rightarrow> f64" where
  "fdiv (Fin a) (Fin b) = (if b = 0 then signed_inf (fsgn (Fin a)) else rnd (a / b))"
| "fdiv NaN y = NaN"
| "fdiv x NaN = NaN"
| "fdiv (Fin a) y = Fin 0"
| "fdiv x (Fin b) = signed_inf (fsgn x * (if b < 0 then - 1 else 1))"
| "fdiv x y = NaN"

definition f64_of_int :: "int \<Rightarrow> f64" where
  "f64_of_int n = rnd (of_int n)"

definition f64_of_nat :: "nat \<Rightarrow> f64" where
  "f64_of_nat n = rnd (of_nat n)"

fun is_fin :: "f64 \<Rightarrow> bool" where
  "is_fin (Fin a) = True"
| "is_fin x = False"


section \<open>Columns and data frames\<close>

datatype py_error =
  KeyError string | IndexError | FileNotFoundError | EmptyDataError | NameError | OSError

definition and_then :: "py_error + 'a \<Rightarrow> ('a \<Rightarrow> py_error + 'b) \<Rightarrow> py_error + 'b" where
  "and_then m f = (case m of Inl e \<Rightarrow> Inl e | Inr x \<Rightarrow> f x)"

type_synonym series = "f64 list"

text \<open>
  A data frame is the list of its named columns, in header order. An integer column is
  held by the binary64 values of its cells: every operation of the script converts an
  integer cell to binary64 before it computes with it.
\<close>

type_synonym dataframe = "(string \<times> series) list"

text \<open>\<^verbatim>\<open>df[name]\<close>\<close>

definition getitem :: "dataframe \<Rightarrow> string \<Rightarrow> py_error + series" where
  "getitem d name = (case map_of d name of None \<Rightarrow> Inl (KeyError name) | Some s \<Rightarrow> Inr s)"

text \<open>\<^verbatim>\<open>s.iloc[i]\<close> for a position \<open>i \<ge> 0\<close>\<close>

definition iloc :: "series \<Rightarrow> nat \<Rightarrow> py_error + f64" where
  "iloc s i = (if i < length s then Inr (s ! i) else Inl IndexError)"

text \<open>\<^verbatim>\<open>s * x\<close> and \<^verbatim>\<open>a / b\<close> on columns of one frame, cell by cell\<close>

definition series_mul_scalar :: "series \<Rightarrow> f64 \<Rightarrow> series" where
  "series_mul_scalar s x = map (\<lambda>v. fmul v x) s"

definition series_div :: "series \<Rightarrow> series \<Rightarrow> series" where
  "series_div a b = map (\<lambda>(x, y). fdiv x y) (zip a b)"

text \<open>
  \<^verbatim>\<open>s.mean()\<close>: pandas skips NaN cells. It replaces them by zero, adds the cells up with
  numpy's \<^verbatim>\<open>sum\<close>, and divides by the number of cells that are not NaN; with no such
  cell the mean is NaN.

  numpy adds a contiguous binary64 array up by pairwise summation. Fewer than eight cells
  are added from left to right, starting from zero. Up to 128 cells are added into eight
  accumulators, which start as the first eight cells and take one full block of eight
  cells at a time; the accumulators are then added as
  \<open>((r0 + r1) + (r2 + r3)) + ((r4 + r5) + (r6 + r7))\<close>, and the cells after the last full
  block are added to that from left to right. A longer array is split after
  \<open>n div 2 - n div 2 mod 8\<close> cells and the sums of the two parts are added. The reduction
  adds the result to its initial value, a zero.
\<close>

definition add8 :: "series \<Rightarrow> series \<Rightarrow> series" where
  "add8 r xs = map (\<lambda>(x, y). fadd x y) (zip r xs)"

function accumulate8 :: "series \<Rightarrow> series \<Rightarrow> series" where
  "accumulate8 r xs =
     (if length xs < 8 then r else accumulate8 (add8 r (take 8 xs)) (drop 8 xs))"
  by pat_completeness auto
termination
  by (relation "measure (\<lambda>(r, xs). length xs)") auto

definition unrolled_sum :: "series \<Rightarrow> f64" where
  "unrolled_sum a =
     (let r = accumulate8 (take 8 a) (drop 8 a);
          res = fadd (fadd (fadd (r ! 0) (r ! 1)) (fadd (r ! 2) (r ! 3)))
                  (fadd (fadd (r ! 4) (r ! 5)) (fadd (r ! 6) (r ! 7)))
      in foldl fadd res (drop (length a - length a mod 8) a))"

definition split_point :: "nat \<Rightarrow> nat" where
  "split_point n = n div 2 - n div 2 mod 8"

function pairwise_sum :: "series \<Rightarrow> f64" where
  "pairwise_sum a =
     (if length a < 8 then foldl fadd (Fin 0) a
      else if length a \<le> 128 then unrolled_sum a
      else fadd (pairwise_sum (take (split_point (length a)) a))
             (pairwise_sum (drop (split_point (length a)) a)))"
  by pat_completeness auto
termination
  by (relation "measure length") (auto simp: split_point_def)

definition series_sum :: "series \<Rightarrow> f64" where
  "series_sum s = fadd (Fin 0) (pairwise_sum s)"

definition series_mean :: "series \<Rightarrow> f64" where
  "series_mean s =
     (let count = length (filter (\<lambda>v. v \<noteq> NaN) s);
          the_sum = series_sum (map (\<lambda>v. if v = NaN then Fin 0 else v) s)
      in if 0 < count then fdiv the_sum (f64_of_nat count) else NaN)"

section \<open>The two derived values\<close>

text \<open>
  Line 12:
  \<^verbatim>\<open>df['TheoreticalComplexity'] * (df['ActualTime'].iloc[0] / df['TheoreticalComplexity'].iloc[0])\<close>.
  Python evaluates the left operand first, then the dividend, then the divisor.
\<close>

definition theoretical_normalized :: "dataframe \<Rightarrow> py_error + series" where
  "theoretical_normalized d =
     and_then (getitem d ''TheoreticalComplexity'') (\<lambda>tc.
     and_then (getitem d ''ActualTime'') (\<lambda>atime.
     and_then (iloc atime 0) (\<lambda>a0.
     and_then (getitem d ''TheoreticalComplexity'') (\<lambda>tc'.
     and_then (iloc tc' 0) (\<lambda>t0.
     Inr (series_mul_scalar tc (fdiv a0 t0)))))))"

text \<open>
  Line 33:
  \<^verbatim>\<open>(df['ActualComparisons'] / df['TheoreticalComplexity'] * 100).mean()\<close>
\<close>

definition efficiency :: "dataframe \<Rightarrow> py_error + f64" where
  "efficiency d =
     and_then (getitem d ''ActualComparisons'') (\<lambda>ac.
     and_then (getitem d ''TheoreticalComplexity'') (\<lambda>tc.
     Inr (series_mean (series_mul_scalar (series_div ac tc) (Fin 100)))))"

section \<open>The table of measurement rows\<close>

record measurement_row =
  gridSize :: int
  actualTime :: f64
  stdDev :: f64
  actualComparisons :: int
  theoreticalComplexity :: f64

definition to_frame :: "measurement_row list \<Rightarrow> dataframe" where
  "to_frame rows =
     [(''GridSize'', map (\<lambda>r. f64_of_int (gridSize r)) rows),
      (''ActualTime'', map actualTime rows),
      (''StdDev'', map stdDev rows),
      (''ActualComparisons'', map (\<lambda>r. f64_of_int (actualComparisons r)) rows),
      (''TheoreticalComplexity'', map theoreticalComplexity rows)]"

text \<open>No cell of a valid row is null: the three real fields are finite numbers.\<close>

definition valid_row :: "measurement_row \<Rightarrow> bool" where
  "valid_row r = (is_fin (actualTime r) \<and> is_fin (stdDev r) \<and> is_fin (theoreticalComplexity r))"

definition row :: "int \<Rightarrow> rat \<Rightarrow> rat \<Rightarrow> int \<Rightarrow> rat \<Rightarrow> measurement_row" where
  "row n t s c th = \<lparr>gridSize = n, actualTime = Fin t, stdDev = Fin s,
     actualComparisons = c, theoreticalComplexity = Fin th\<rparr>"

text \<open>
  A frame holds a table when its five required columns are the fields of the rows, in
  row order. The header order is free and further columns may be present.
\<close>

definition has_table :: "dataframe \<Rightarrow> measurement_row list \<Rightarrow> bool" where
  "has_table d rows =
     (map_of d ''GridSize'' = Some (map (\<lambda>r. f64_of_int (gridSize r)) rows) \<and>
      map_of d ''ActualTime'' = Some (map actualTime rows) \<and>
      map_of d ''StdDev'' = Some (map stdDev rows) \<and>
      map_of d ''ActualComparisons'' = Some (map (\<lambda>r. f64_of_int (actualComparisons r)) rows) \<and>
      map_of d ''TheoreticalComplexity'' = Some (map theoreticalComplexity rows))"

text \<open>The efficiency of one row, in percent, as line 33 computes it.\<close>

definition percent :: "measurement_row \<Rightarrow> f64" where
  "percent r = fmul (fdiv (f64_of_int (actualComparisons r)) (theoreticalComplexity r)) (Fin 100)"

fun value_of :: "f64 \<Rightarrow> rat" where
  "value_of (Fin q) = q"
| "value_of x = 0"

text \<open>
  The arithmetic mean as the specification words it: the sum of the numbers divided by
  how many they are, over the rationals, where nothing is rounded. The percentage of one
  row is taken there too.
\<close>

definition arithmetic_mean :: "rat list \<Rightarrow> rat" where
  "arithmetic_mean qs = sum_list qs / of_nat (length qs)"

definition exact_percent :: "measurement_row \<Rightarrow> rat" where
  "exact_percent r =
     of_int (actualComparisons r) / value_of (theoreticalComplexity r) * 100"

text \<open>
  A row is regular when its count of comparisons is a positive 64-bit integer, its
  theoretical complexity is positive, and their quotient is far from the ends of the
  binary64 range: computing its percentage neither overflows nor underflows.
\<close>

definition regular_row :: "measurement_row \<Rightarrow> bool" where
  "regular_row r =
     (0 < actualComparisons r \<and> actualComparisons r < 2 ^ 63 \<and>
      (case theoreticalComplexity r of
         Fin t \<Rightarrow> 0 < t \<and> pow2 (- 990) \<le> of_int (actualComparisons r) / t \<and>
           of_int (actualComparisons r) / t \<le> pow2 990
       | _ \<Rightarrow> False))"

section \<open>The script\<close>

text \<open>
  The environment of a run: the CSV files that can be read, each by the frame its text
  parses to, and whether the working directory can be written.
\<close>

record env =
  csv_files :: "string \<Rightarrow> dataframe option"
  cwd_writable :: bool

text \<open>Line 5. \<^verbatim>\<open>pd.read_csv\<close> is called with the path alone: it is given no list of columns.\<close>

definition read_csv :: "env \<Rightarrow> string \<Rightarrow> py_error + dataframe" where
  "read_csv e path =
     (case csv_files e path of
        None \<Rightarrow> Inl FileNotFoundError
      | Some d \<Rightarrow> if d = [] then Inl EmptyDataError else Inr d)"

datatype axes = Ax1 | Ax2

text \<open>A drawing call is modelled by the data it is given.\<close>

datatype artist =
  Errorbar axes series series series
| Plot axes series series
| Loglog axes series series
| Figtext string

record state =
  df :: dataframe
  theoretical_normalized_var :: "series option"
  efficiency_var :: "f64 option"
  figure :: "artist list"
  written :: "string list"
  console :: "string list"

function show_nat :: "nat \<Rightarrow> string" where
  "show_nat n = (if n < 10 then [''0123456789'' ! n]
     else show_nat (n div 10) @ [''0123456789'' ! (n mod 10)])"
  by pat_completeness auto
termination
  by (relation "measure id") auto

text \<open>\<^verbatim>\<open>f'{x:.1f}'\<close>: the decimal with one digit after the point nearest to \<open>x\<close>.\<close>

definition format_1f :: "f64 \<Rightarrow> string" where
  "format_1f x =
     (case x of
        Fin v \<Rightarrow>
          (let t = nat (round_even (\<bar>v\<bar> * 10))
           in (if v < 0 then ''-'' else []) @ show_nat (t div 10) @ ''.'' @ show_nat (t mod 10))
      | PInf \<Rightarrow> ''inf''
      | NInf \<Rightarrow> ''-inf''
      | NaN \<Rightarrow> ''nan'')"

text \<open>Lines 9 and 10\<close>

definition errorbar_stmt :: "state \<Rightarrow> py_error + state" where
  "errorbar_stmt s =
     and_then (getitem (df s) ''GridSize'') (\<lambda>x.
     and_then (getitem (df s) ''ActualTime'') (\<lambda>y.
     and_then (getitem (df s) ''StdDev'') (\<lambda>yerr.
     Inr (s\<lparr>figure := figure s @ [Errorbar Ax1 x y yerr]\<rparr>))))"

text \<open>Line 12\<close>

definition normalize_stmt :: "state \<Rightarrow> py_error + state" where
  "normalize_stmt s =
     and_then (theoretical_normalized (df s)) (\<lambda>tn.
     Inr (s\<lparr>theoretical_normalized_var := Some tn\<rparr>))"

text \<open>Lines 13 and 14\<close>

definition plot_stmt :: "state \<Rightarrow> py_error + state" where
  "plot_stmt s =
     and_then (getitem (df s) ''GridSize'') (\<lambda>x.
     (case theoretical_normalized_var s of
        None \<Rightarrow> Inl NameError
      | Some tn \<Rightarrow> Inr (s\<lparr>figure := figure s @ [Plot Ax1 x tn]\<rparr>)))"

text \<open>Lines 22 and 23\<close>

definition loglog_actual_stmt :: "state \<Rightarrow> py_error + state" where
  "loglog_actual_stmt s =
     and_then (getitem (df s) ''GridSize'') (\<lambda>x.
     and_then (getitem (df s) ''ActualComparisons'') (\<lambda>y.
     Inr (s\<lparr>figure := figure s @ [Loglog Ax2 x y]\<rparr>)))"

text \<open>Lines 24 and 25\<close>

definition loglog_theory_stmt :: "state \<Rightarrow> py_error + state" where
  "loglog_theory_stmt s =
     and_then (getitem (df s) ''GridSize'') (\<lambda>x.
     and_then (getitem (df s) ''TheoreticalComplexity'') (\<lambda>y.
     Inr (s\<lparr>figure := figure s @ [Loglog Ax2 x y]\<rparr>)))"

text \<open>Line 33\<close>

definition efficiency_stmt :: "state \<Rightarrow> py_error + state" where
  "efficiency_stmt s =
     and_then (efficiency (df s)) (\<lambda>v.
     Inr (s\<lparr>efficiency_var := Some v\<rparr>))"

text \<open>Lines 34 to 37. Of the caption, the number it shows is kept.\<close>

definition figtext_stmt :: "state \<Rightarrow> py_error + state" where
  "figtext_stmt s =
     (case efficiency_var s of
        None \<Rightarrow> Inl NameError
      | Some v \<Rightarrow> Inr (s\<lparr>figure := figure s @ [Figtext (format_1f v)]\<rparr>))"

text \<open>Line 41\<close>

definition savefig_stmt :: "env \<Rightarrow> state \<Rightarrow> py_error + state" where
  "savefig_stmt e s =
     (if cwd_writable e then Inr (s\<lparr>written := written s @ [''dc_complexity_analysis.png'']\<rparr>)
      else Inl OSError)"

text \<open>Line 42\<close>

definition print_stmt :: "state \<Rightarrow> py_error + state" where
  "print_stmt s =
     Inr (s\<lparr>console := console s @
       [''Divide & Conquer complexity analysis plot saved as dc_complexity_analysis.png'']\<rparr>)"

text \<open>
  The statements after the load, in the order of the script. The calls that only style
  the axes (lines 16 to 20, 27 to 31, 39 and 40) and \<^verbatim>\<open>plt.show()\<close> read no data and
  are left out.
\<close>

definition statements :: "env \<Rightarrow> (state \<Rightarrow> py_error + state) list" where
  "statements e =
     [errorbar_stmt, normalize_stmt, plot_stmt, loglog_actual_stmt, loglog_theory_stmt,
      efficiency_stmt, figtext_stmt, savefig_stmt e, print_stmt]"

text \<open>An exception ends the run: the statements after it are not executed.\<close>

fun run :: "(state \<Rightarrow> py_error + state) list \<Rightarrow> state \<Rightarrow> py_error + state" where
  "run [] s = Inr s"
| "run (f # fs) s = and_then (f s) (run fs)"

definition loaded :: "dataframe \<Rightarrow> state" where
  "loaded d = \<lparr>df = d, theoretical_normalized_var = None, efficiency_var = None,
     figure = [], written = [], console = []\<rparr>"

definition script :: "env \<Rightarrow> py_error + state" where
  "script e =
     and_then (read_csv e ''dc_analysis_results.csv'') (\<lambda>d. run (statements e) (loaded d))"

text \<open>
  A value is in the normal range when its magnitude is at least the least normal number
  and below \<open>2\<^sup>1\<^sup>0\<^sup>2\<^sup>3\<close>: rounding it neither underflows nor overflows.
\<close>

definition normal_range :: "rat \<Rightarrow> bool" where
  "normal_range q = (pow2 (- 1022) \<le> \<bar>q\<bar> \<and> \<bar>q\<bar> < pow2 1023)"

text \<open>The sum of a column is exact when it is the sum of its cells over the rationals.\<close>

definition exact_sum :: "series \<Rightarrow> bool" where
  "exact_sum xs = (series_sum xs = Fin (sum_list (map value_of xs)))"

text \<open>The table with every theoretical complexity multiplied by \<open>c\<close>.\<close>

definition scale_theoretical :: "rat \<Rightarrow> measurement_row list \<Rightarrow> measurement_row list" where
  "scale_theoretical c rows =
     map (\<lambda>r. r\<lparr>theoreticalComplexity := fmul (Fin c) (theoreticalComplexity r)\<rparr>) rows"

definition required_columns :: "string list" where
  "required_columns =
     [''GridSize'', ''ActualTime'', ''StdDev'', ''ActualComparisons'', ''TheoreticalComplexity'']"

text \<open>The three rows of the specification's example.\<close>

definition spec_rows :: "measurement_row list" where
  "spec_rows = [row 8 10 (1 / 2) 100 96, row 16 45 2 500 512, row 32 200 8 2500 2560]"

definition spec_env :: env where
  "spec_env = \<lparr>csv_files = [''dc_analysis_results.csv'' \<mapsto> to_frame spec_rows],
     cwd_writable = True\<rparr>"

text \<open>The example without its \<^verbatim>\<open>StdDev\<close> column.\<close>

definition no_stddev_frame :: dataframe where
  "no_stddev_frame = filter (\<lambda>(name, cells). name \<noteq> ''StdDev'') (to_frame spec_rows)"

definition no_stddev_env :: env where
  "no_stddev_env = \<lparr>csv_files = [''dc_analysis_results.csv'' \<mapsto> no_stddev_frame],
     cwd_writable = True\<rparr>"


definition order_rows :: "measurement_row list" where
  "order_rows = [row 8 1 (1 / 2) 2 10, row 16 2 (1 / 2) 11 10, row 32 3 (1 / 2) 11 10]"

definition dyadic_rows :: "measurement_row list" where
  "dyadic_rows = [row 8 1 (1 / 2) 1 2, row 16 2 (1 / 2) 1 4, row 32 3 (1 / 2) 1 1]"


section \<open>Accumulated rounding\<close>

text \<open>
  \<open>near k x y\<close>: the binary64 value \<open>y\<close> is the positive number \<open>x\<close> after at most \<open>k\<close>
  roundings, each of relative error at most \<open>2\<^sup>-\<^sup>5\<^sup>3\<close>.
\<close>

definition near :: "nat \<Rightarrow> rat \<Rightarrow> f64 \<Rightarrow> bool" where
  "near k x y =
     (\<exists>v. y = Fin v \<and> x * (1 - 1 / 2 ^ 53) ^ k \<le> v \<and> v \<le> x * (1 + 1 / 2 ^ 53) ^ k)"

text \<open>
  \<open>adds c k S y\<close>: \<open>y\<close> is computed by binary64 additions, nested at most \<open>k\<close> deep, from
  cells that are within \<open>c\<close> roundings of numbers not below \<open>2\<^sup>-\<^sup>1\<^sup>0\<^sup>2\<^sup>1\<close> whose sum is \<open>S\<close>.
\<close>

inductive adds :: "nat \<Rightarrow> nat \<Rightarrow> rat \<Rightarrow> f64 \<Rightarrow> bool" for c :: nat where
  cell: "pow2 (- 1021) \<le> x \<Longrightarrow> near c x y \<Longrightarrow> adds c 0 x y"
| from_zero: "adds c k S a \<Longrightarrow> adds c (Suc k) S (fadd (Fin 0) a)"
| sum: "adds c k S a \<Longrightarrow> adds c k' S' b \<Longrightarrow> adds c (Suc (max k k')) (S + S') (fadd a b)"
| deeper: "adds c k S a \<Longrightarrow> k \<le> k' \<Longrightarrow> adds c k' S a"


section \<open>Properties of rounding\<close>

lemma pow2_powi: "pow2 k = 2 powi k"
  by (simp add: pow2_def power_int_def power_inverse field_simps)

lemma pow2_pos: "0 < pow2 k"
  by (simp add: pow2_powi)

lemma pow2_add: "pow2 (j + k) = pow2 j * pow2 k"
  by (simp add: pow2_powi power_int_add)

lemma pow2_mono: "j \<le> k \<Longrightarrow> pow2 j \<le> pow2 k"
  by (simp add: pow2_powi power_int_increasing)

lemma pow2_less_exp: "pow2 j < pow2 k \<Longrightarrow> j < k"
  using pow2_mono [of k j] by (cases "j < k") auto

lemma bitlen_rat_bounds:
  assumes "0 < p"
  shows "pow2 (bitlen p - 1) \<le> of_int p" and "of_int p < pow2 (bitlen p)"
proof -
  have b: "1 \<le> bitlen p" using assms by (simp add: bitlen_alt_def)
  have "(2::int) ^ nat (bitlen p - 1) \<le> p" and "p < 2 ^ nat (bitlen p)"
    using bitlen_bounds [OF assms] by simp_all
  then have "(of_int ((2::int) ^ nat (bitlen p - 1)) :: rat) \<le> of_int p"
    and "(of_int p :: rat) < of_int (2 ^ nat (bitlen p))"
    by (simp_all only: of_int_le_iff of_int_less_iff)
  then show "pow2 (bitlen p - 1) \<le> of_int p" and "of_int p < pow2 (bitlen p)"
    using b by (simp_all add: pow2_def)
qed

lemma ilog2_bounds:
  assumes "0 < q"
  shows "pow2 (ilog2 q) \<le> q" and "q < pow2 (ilog2 q + 1)"
proof -
  obtain p d where pd: "quotient_of q = (p, d)" by (cases "quotient_of q")
  have d: "0 < d" using pd by (rule quotient_of_denom_pos)
  have q: "q = of_int p / of_int d" using pd by (rule quotient_of_div)
  have p: "0 < p" using assms d q by (simp add: zero_less_divide_iff)
  let ?k = "bitlen p - bitlen d"
  have up: "q < pow2 (?k + 1)"
  proof -
    have "of_int p < pow2 (bitlen p)" using p by (rule bitlen_rat_bounds)
    moreover have "pow2 (bitlen d - 1) \<le> of_int d" using d by (rule bitlen_rat_bounds)
    moreover have "pow2 (bitlen p) = pow2 (?k + 1) * pow2 (bitlen d - 1)"
      by (simp add: pow2_add [symmetric])
    ultimately have "of_int p < pow2 (?k + 1) * pow2 (bitlen d - 1)"
      and "pow2 (?k + 1) * pow2 (bitlen d - 1) \<le> pow2 (?k + 1) * of_int d"
      using pow2_pos [of "?k + 1"] by (simp_all add: mult_left_mono less_imp_le)
    then have "of_int p < pow2 (?k + 1) * of_int d" by (rule less_le_trans)
    then show ?thesis using d by (simp add: q pos_divide_less_eq)
  qed
  have low: "pow2 (?k - 1) \<le> q"
  proof -
    have "pow2 (bitlen p - 1) \<le> of_int p" using p by (rule bitlen_rat_bounds)
    moreover have "of_int d < pow2 (bitlen d)" using d by (rule bitlen_rat_bounds)
    moreover have "pow2 (bitlen p - 1) = pow2 (?k - 1) * pow2 (bitlen d)"
      by (simp add: pow2_add [symmetric])
    ultimately have "pow2 (?k - 1) * of_int d \<le> pow2 (?k - 1) * pow2 (bitlen d)"
      and "pow2 (?k - 1) * pow2 (bitlen d) \<le> of_int p"
      using pow2_pos [of "?k - 1"] by (simp_all add: mult_left_mono less_imp_le)
    then have "pow2 (?k - 1) * of_int d \<le> of_int p" by (rule order_trans)
    then show ?thesis using d by (simp add: q pos_le_divide_eq)
  qed
  show "pow2 (ilog2 q) \<le> q"
    using low by (simp add: ilog2_def pd Let_def)
  show "q < pow2 (ilog2 q + 1)"
    using up by (auto simp add: ilog2_def pd Let_def not_le)
qed

lemma ilog2_unique:
  assumes "0 < q" and "pow2 k \<le> q" and "q < pow2 (k + 1)"
  shows "ilog2 q = k"
proof -
  have "pow2 (ilog2 q) < pow2 (k + 1)"
    using ilog2_bounds(1) [OF assms(1)] assms(3) by simp
  then have "ilog2 q < k + 1" by (rule pow2_less_exp)
  moreover have "pow2 k < pow2 (ilog2 q + 1)"
    using ilog2_bounds(2) [OF assms(1)] assms(2) by simp
  then have "k < ilog2 q + 1" by (rule pow2_less_exp)
  ultimately show ?thesis by simp
qed


lemma round_even_error: "\<bar>of_int (round_even x) - x\<bar> \<le> 1 / 2"
proof -
  have "of_int \<lfloor>x\<rfloor> \<le> x" "x < of_int \<lfloor>x\<rfloor> + 1" by linarith+
  then show ?thesis by (auto simp: round_even_def Let_def)
qed

lemma round_even_of_int: "round_even (of_int n) = n"
  by (simp add: round_even_def)

lemma rnd_not_NaN: "rnd q \<noteq> NaN"
  by (simp add: rnd_def Let_def)


lemma normal_range_ilog2:
  assumes "normal_range q"
  shows "- 1022 \<le> ilog2 \<bar>q\<bar>" and "ilog2 \<bar>q\<bar> \<le> 1022" and "q \<noteq> 0"
proof -
  have "pow2 (- 1022) \<le> \<bar>q\<bar>" using assms by (simp add: normal_range_def)
  then have pos: "0 < \<bar>q\<bar>" by (rule less_le_trans [OF pow2_pos])
  then show "q \<noteq> 0" by simp
  have "pow2 (- 1022) < pow2 (ilog2 \<bar>q\<bar> + 1)"
    using assms ilog2_bounds(2) [OF pos] by (simp add: normal_range_def)
  then have "- 1022 < ilog2 \<bar>q\<bar> + 1" by (rule pow2_less_exp)
  then show "- 1022 \<le> ilog2 \<bar>q\<bar>" by simp
  have "pow2 (ilog2 \<bar>q\<bar>) < pow2 1023"
    using assms ilog2_bounds(1) [OF pos] by (simp add: normal_range_def)
  then have "ilog2 \<bar>q\<bar> < 1023" by (rule pow2_less_exp)
  then show "ilog2 \<bar>q\<bar> \<le> 1022" by simp
qed

lemma rnd_normal:
  assumes "normal_range q"
  shows "rnd q = Fin (of_int (round_even (q / pow2 (ilog2 \<bar>q\<bar> - 52))) * pow2 (ilog2 \<bar>q\<bar> - 52))"
proof -
  define k where "k = ilog2 \<bar>q\<bar>"
  have k: "- 1022 \<le> k" "k \<le> 1022" "q \<noteq> 0"
    using normal_range_ilog2 [OF assms] by (simp_all add: k_def)
  then have m: "max (k - 52) (- 1074) = k - 52" by simp
  show ?thesis
    unfolding rnd_def Let_def k_def [symmetric] m using k by simp
qed

lemma rnd_error:
  assumes "normal_range q"
  shows "\<exists>v. rnd q = Fin v \<and> \<bar>v - q\<bar> \<le> \<bar>q\<bar> / 2 ^ 53"
proof -
  let ?e = "ilog2 \<bar>q\<bar> - 52"
  let ?m = "round_even (q / pow2 ?e)"
  have pos: "0 < \<bar>q\<bar>" using normal_range_ilog2(3) [OF assms] by simp
  have "of_int ?m * pow2 ?e - q = (of_int ?m - q / pow2 ?e) * pow2 ?e"
    using pow2_pos [of ?e] by (simp add: field_simps)
  then have "\<bar>of_int ?m * pow2 ?e - q\<bar> = \<bar>of_int ?m - q / pow2 ?e\<bar> * pow2 ?e"
    using pow2_pos [of ?e] by (simp add: abs_mult)
  also have "\<dots> \<le> 1 / 2 * pow2 ?e"
    using round_even_error [of "q / pow2 ?e"] pow2_pos [of ?e]
    by (intro mult_right_mono) simp_all
  also have "\<dots> = pow2 (ilog2 \<bar>q\<bar>) / 2 ^ 53"
  proof -
    have "pow2 (ilog2 \<bar>q\<bar>) = pow2 ?e * pow2 52"
      by (simp add: pow2_add [symmetric])
    then show ?thesis by (simp add: pow2_def)
  qed
  also have "\<dots> \<le> \<bar>q\<bar> / 2 ^ 53"
    using ilog2_bounds(1) [OF pos] by (simp add: divide_right_mono)
  finally show ?thesis using rnd_normal [OF assms] by simp
qed


lemma rnd_eval:
  assumes "pow2 (e + 52) \<le> \<bar>q\<bar>" and "\<bar>q\<bar> < pow2 (e + 53)" and "- 1074 \<le> e" and "e \<le> 970"
  shows "rnd q = Fin (of_int (round_even (q / pow2 e)) * pow2 e)"
proof -
  have pos: "0 < \<bar>q\<bar>" using assms(1) by (rule less_le_trans [OF pow2_pos])
  have "pow2 (e + 52 + 1) = pow2 (e + 53)" by (simp add: add.assoc)
  then have il: "ilog2 \<bar>q\<bar> = e + 52"
    using assms(1,2) by (intro ilog2_unique [OF pos]) simp_all
  have m: "max (e + 52 - 52) (- 1074) = e" using assms(3) by simp
  show ?thesis
    unfolding rnd_def Let_def il m using pos assms(4) by simp
qed

lemma floor_rat_numeral:
  "\<lfloor>(numeral a :: rat) / numeral b\<rfloor> = numeral a div numeral b"
  "\<lfloor>- (numeral a :: rat) / numeral b\<rfloor> = - numeral a div numeral b"
  by (metis floor_divide_of_int_eq of_int_numeral of_int_minus)+

lemmas rnd_calc = pow2_def round_even_def Let_def floor_rat_numeral
subsection \<open>Values that rounding leaves unchanged\<close>

lemma pow2_0 [simp]: "pow2 0 = 1"
  by (simp add: pow2_def)

lemma pow2_double: "pow2 (k + 1) = 2 * pow2 k"
  by (simp add: pow2_powi power_int_add)

lemma pow2_nonneg_int: "0 \<le> k \<Longrightarrow> pow2 k = of_int (2 ^ nat k)"
  by (simp add: pow2_def)


lemma rnd_representable:
  assumes "\<bar>m\<bar> < 2 ^ 53" and "- 1074 \<le> e" and "e \<le> 971"
  shows "rnd (of_int m * pow2 e) = Fin (of_int m * pow2 e)"
proof (cases "m = 0")
  case True
  then show ?thesis by (simp add: rnd_def)
next
  case False
  define q where "q = of_int m * pow2 e"
  have q0: "q \<noteq> 0" using False pow2_pos [of e] by (simp add: q_def)
  have absq: "\<bar>q\<bar> = of_int \<bar>m\<bar> * pow2 e"
    using pow2_pos [of e] by (simp add: q_def abs_mult)
  have pos: "0 < \<bar>q\<bar>" using q0 by simp
  define L where "L = ilog2 \<bar>q\<bar>"
  have "(of_int \<bar>m\<bar> :: rat) < of_int (2 ^ 53)"
    using assms(1) by (simp only: of_int_less_iff)
  then have "(of_int \<bar>m\<bar> :: rat) < pow2 53" by (simp add: pow2_def)
  then have "\<bar>q\<bar> < pow2 53 * pow2 e"
    using pow2_pos [of e] by (simp add: absq)
  then have "pow2 L < pow2 (53 + e)"
    using ilog2_bounds(1) [OF pos] by (simp add: pow2_add L_def)
  then have "L < 53 + e" by (rule pow2_less_exp)
  define r where "r = max (L - 52) (- 1074)"
  have re: "r \<le> e" using \<open>L < 53 + e\<close> assms(2) by (simp add: r_def)
  have pe: "pow2 e = pow2 (e - r) * pow2 r" by (simp add: pow2_add [symmetric])
  have "q / pow2 r = of_int m * pow2 (e - r)"
    using pow2_pos [of r] by (simp add: q_def pe)
  also have "\<dots> = of_int (m * 2 ^ nat (e - r))"
    using re by (simp add: pow2_nonneg_int)
  finally have m: "round_even (q / pow2 r) = m * 2 ^ nat (e - r)"
    by (simp only: round_even_of_int)
  have "of_int (round_even (q / pow2 r)) * pow2 r = of_int (m * 2 ^ nat (e - r)) * pow2 r"
    by (simp only: m)
  also have "\<dots> = of_int m * (pow2 (e - r) * pow2 r)"
    using re by (simp add: pow2_nonneg_int)
  also have "\<dots> = q" by (simp only: q_def pe)
  finally have restore: "of_int (round_even (q / pow2 r)) * pow2 r = q" .
  have nov: "\<not> (971 < r \<or> (r = 971 \<and> 9007199254740992 \<le> \<bar>round_even (q / pow2 r)\<bar>))"
  proof -
    have "r \<le> 971" using re assms(3) by simp
    moreover have "\<bar>round_even (q / pow2 r)\<bar> < 9007199254740992" if "r = 971"
    proof -
      have "e = r" using that re assms(3) by simp
      then show ?thesis using assms(1) by (simp add: m)
    qed
    ultimately show ?thesis by auto
  qed
  have "rnd q = Fin (of_int (round_even (q / pow2 r)) * pow2 r)"
    unfolding rnd_def Let_def L_def [symmetric] r_def [symmetric] using q0 nov by simp
  then show ?thesis by (simp add: restore) (simp add: q_def)
qed


subsection \<open>Relative error after several roundings\<close>

lemma bernoulli_down:
  fixes u :: rat
  assumes "0 \<le> u" and "u \<le> 1"
  shows "1 - of_nat k * u \<le> (1 - u) ^ k"
proof (induction k)
  case 0
  show ?case by simp
next
  case (Suc k)
  have "1 - of_nat (Suc k) * u \<le> (1 - of_nat k * u) * (1 - u)"
    using assms(1) by (simp add: algebra_simps)
  also have "\<dots> \<le> (1 - u) ^ k * (1 - u)"
    using Suc assms(2) by (intro mult_right_mono) simp_all
  finally show ?case by (simp add: mult.commute)
qed

lemma bernoulli_up:
  fixes u :: rat
  assumes "0 \<le> u" and "2 * of_nat k * u \<le> 1"
  shows "(1 + u) ^ k \<le> 1 + 2 * of_nat k * u"
  using assms(2)
proof (induction k)
  case 0
  show ?case by simp
next
  case (Suc k)
  have k: "2 * of_nat k * u \<le> 1"
    using Suc.prems assms(1) by (simp add: algebra_simps)
  have "(1 + u) ^ Suc k = (1 + u) ^ k * (1 + u)" by simp
  also have "\<dots> \<le> (1 + 2 * of_nat k * u) * (1 + u)"
    using Suc.IH [OF k] assms(1) by (intro mult_right_mono) simp_all
  also have "\<dots> = 1 + 2 * of_nat k * u + u + (2 * of_nat k * u) * u"
    by (simp add: algebra_simps)
  also have "\<dots> \<le> 1 + 2 * of_nat k * u + u + 1 * u"
    using k assms(1) by (intro add_left_mono mult_right_mono) simp_all
  also have "\<dots> = 1 + 2 * of_nat (Suc k) * u" by (simp add: algebra_simps)
  finally show ?case .
qed

lemma of_nat_le_pow52:
  assumes "k \<le> 2 ^ 52"
  shows "(of_nat k :: rat) \<le> 2 ^ 52"
proof -
  have "(of_nat k :: rat) \<le> of_nat (2 ^ 52)" using assms by (simp only: of_nat_le_iff)
  then show ?thesis by simp
qed

lemma pow_down:
  assumes "k \<le> 2 ^ 52"
  shows "1 / 2 \<le> (1 - 1 / 2 ^ 53 :: rat) ^ k"
proof -
  have "1 / 2 \<le> 1 - (of_nat k :: rat) * (1 / 2 ^ 53)"
    using of_nat_le_pow52 [OF assms] by simp
  also have "\<dots> \<le> (1 - 1 / 2 ^ 53) ^ k" by (rule bernoulli_down) simp_all
  finally show ?thesis .
qed

lemma pow_up:
  assumes "k \<le> 2 ^ 52"
  shows "(1 + 1 / 2 ^ 53 :: rat) ^ k \<le> 2"
proof -
  have k: "2 * (of_nat k :: rat) * (1 / 2 ^ 53) \<le> 1"
    using of_nat_le_pow52 [OF assms] by simp
  have "(1 + 1 / 2 ^ 53 :: rat) ^ k \<le> 1 + 2 * of_nat k * (1 / 2 ^ 53)"
    using _ k by (rule bernoulli_up) simp
  also have "\<dots> \<le> 2" using k by simp
  finally show ?thesis .
qed

lemma near_Fin:
  "near k x (Fin v) \<longleftrightarrow> x * (1 - 1 / 2 ^ 53) ^ k \<le> v \<and> v \<le> x * (1 + 1 / 2 ^ 53) ^ k"
  by (simp add: near_def)

lemma near_is_Fin: "near k x y \<Longrightarrow> \<exists>v. y = Fin v"
  by (auto simp: near_def)

lemma near_mono:
  assumes "near k x y" and "k \<le> k'" and "0 \<le> x"
  shows "near k' x y"
proof -
  obtain v where v: "y = Fin v" "x * (1 - 1 / 2 ^ 53) ^ k \<le> v" "v \<le> x * (1 + 1 / 2 ^ 53) ^ k"
    using assms(1) by (auto simp: near_def)
  have "(1 - 1 / 2 ^ 53 :: rat) ^ k' \<le> (1 - 1 / 2 ^ 53) ^ k"
    using assms(2) by (intro power_decreasing) simp_all
  then have "x * (1 - 1 / 2 ^ 53) ^ k' \<le> x * (1 - 1 / 2 ^ 53) ^ k"
    using assms(3) by (rule mult_left_mono)
  moreover have "(1 + 1 / 2 ^ 53 :: rat) ^ k \<le> (1 + 1 / 2 ^ 53) ^ k'"
    using assms(2) by (intro power_increasing) simp_all
  then have "x * (1 + 1 / 2 ^ 53) ^ k \<le> x * (1 + 1 / 2 ^ 53) ^ k'"
    using assms(3) by (rule mult_left_mono)
  ultimately show ?thesis using v by (simp add: near_def)
qed

lemma near_scale:
  assumes "near k x (Fin v)" and "0 \<le> c"
  shows "near k (c * x) (Fin (c * v))"
proof -
  have "c * (x * (1 - 1 / 2 ^ 53) ^ k) \<le> c * v" and "c * v \<le> c * (x * (1 + 1 / 2 ^ 53) ^ k)"
    using assms by (simp_all add: near_Fin mult_left_mono)
  then show ?thesis by (simp add: near_Fin mult.assoc)
qed

lemma near_plus:
  assumes "near k x (Fin a)" and "near k y (Fin b)"
  shows "near k (x + y) (Fin (a + b))"
  using assms by (simp add: near_Fin algebra_simps add_mono)

lemma near_range:
  assumes "near k x (Fin v)" and "k \<le> 2 ^ 52"
    and "pow2 (- 1021) \<le> x" and "x \<le> pow2 1021"
  shows "normal_range v" and "0 < v"
proof -
  have x0: "0 < x" using assms(3) by (rule less_le_trans [OF pow2_pos])
  have "x * (1 / 2) \<le> x * (1 - 1 / 2 ^ 53) ^ k"
    using pow_down [OF assms(2)] x0 by (intro mult_left_mono) simp_all
  then have lo: "x / 2 \<le> v" using assms(1) by (simp add: near_Fin)
  have "x * (1 + 1 / 2 ^ 53) ^ k \<le> x * 2"
    using pow_up [OF assms(2)] x0 by (intro mult_left_mono) simp_all
  then have hi: "v \<le> 2 * x" using assms(1) by (simp add: near_Fin)
  show v0: "0 < v" using lo x0 by linarith
  have p1: "pow2 (- 1021) = 2 * pow2 (- 1022)" using pow2_double [of "- 1022"] by simp
  have p2: "pow2 1022 = 2 * pow2 1021" using pow2_double [of 1021] by simp
  have p3: "pow2 1022 < pow2 1023" using pow2_double [of 1022] pow2_pos [of 1022] by simp
  show "normal_range v"
    unfolding normal_range_def using lo hi v0 assms(3,4) p1 p2 p3 by simp
qed

lemma near_rnd:
  assumes "near k x (Fin q)" and "k < 2 ^ 52"
    and "pow2 (- 1021) \<le> x" and "x \<le> pow2 1021"
  shows "near (Suc k) x (rnd q)"
proof -
  have k: "k \<le> 2 ^ 52" using assms(2) by simp
  have nr: "normal_range q" and q0: "0 < q"
    using near_range [OF assms(1) k assms(3,4)] by simp_all
  obtain v where v: "rnd q = Fin v" "\<bar>v - q\<bar> \<le> \<bar>q\<bar> / 2 ^ 53"
    using rnd_error [OF nr] by blast
  define u :: rat where "u = 1 / 2 ^ 53"
  have e: "\<bar>v - q\<bar> \<le> q * u" using v(2) q0 by (simp add: u_def)
  have "q * (1 - u) \<le> v" and "v \<le> q * (1 + u)"
    using e by (simp_all add: abs_le_iff algebra_simps)
  then have lo: "q * (1 - 1 / 2 ^ 53) \<le> v" and hi: "v \<le> q * (1 + 1 / 2 ^ 53)"
    by (simp_all only: u_def)
  have "x * (1 - 1 / 2 ^ 53) ^ k * (1 - 1 / 2 ^ 53) \<le> q * (1 - 1 / 2 ^ 53)"
    using assms(1) by (intro mult_right_mono) (simp_all add: near_Fin)
  moreover have "q * (1 + 1 / 2 ^ 53) \<le> x * (1 + 1 / 2 ^ 53) ^ k * (1 + 1 / 2 ^ 53)"
    using assms(1) by (intro mult_right_mono) (simp_all add: near_Fin)
  ultimately show ?thesis using lo hi by (simp add: v(1) near_Fin mult.assoc)
qed


section \<open>Properties of the frame operations\<close>

declare accumulate8.simps [simp del] pairwise_sum.simps [simp del]

lemma and_then_Inr [simp]: "and_then (Inr x) f = f x"
  by (simp add: and_then_def)

lemma and_then_Inl [simp]: "and_then (Inl e) f = Inl e"
  by (simp add: and_then_def)

lemma and_then_eq_Inr: "and_then m f = Inr y \<longleftrightarrow> (\<exists>x. m = Inr x \<and> f x = Inr y)"
  by (cases m) simp_all

lemma getitem_Some: "map_of d n = Some s \<Longrightarrow> getitem d n = Inr s"
  by (simp add: getitem_def)

lemma getitem_None: "map_of d n = None \<Longrightarrow> getitem d n = Inl (KeyError n)"
  by (simp add: getitem_def)

lemma getitem_eq_Inr: "getitem d n = Inr s \<longleftrightarrow> map_of d n = Some s"
  by (simp add: getitem_def split: option.splits)

lemma has_table_to_frame: "has_table (to_frame rows) rows"
  by (simp add: has_table_def to_frame_def)

lemma normalized_table:
  assumes "has_table d rows" and "rows \<noteq> []"
  shows "theoretical_normalized d =
    Inr (map (\<lambda>r. fmul (theoreticalComplexity r)
       (fdiv (actualTime (rows ! 0)) (theoreticalComplexity (rows ! 0)))) rows)"
  using assms
  by (cases rows)
    (simp_all add: theoretical_normalized_def has_table_def getitem_Some iloc_def
      series_mul_scalar_def)

lemma normalized_empty:
  assumes "has_table d []"
  shows "theoretical_normalized d = Inl IndexError"
  using assms
  by (simp add: theoretical_normalized_def has_table_def getitem_Some iloc_def)

lemma efficiency_table:
  assumes "has_table d rows"
  shows "efficiency d = Inr (series_mean (map percent rows))"
  using assms
  by (simp add: efficiency_def has_table_def getitem_Some series_mul_scalar_def series_div_def
      zip_map_map zip_same_conv_map o_def percent_def [abs_def])

lemma fmul_nonfinite: "\<not> is_fin y \<Longrightarrow> \<not> is_fin (fmul x y)"
  by (cases x; cases y) (simp_all add: signed_inf_def)

lemma fdiv_zero_nonfinite: "\<not> is_fin (fdiv x (Fin 0))"
  by (cases x) (simp_all add: signed_inf_def)

lemma percent_not_NaN:
  assumes "is_fin (theoreticalComplexity r)" and "theoreticalComplexity r \<noteq> Fin 0"
  shows "percent r \<noteq> NaN"
proof -
  obtain t where t: "theoreticalComplexity r = Fin t" "t \<noteq> 0"
    using assms by (cases "theoreticalComplexity r") simp_all
  have "rnd (of_int (actualComparisons r)) \<noteq> NaN" by (rule rnd_not_NaN)
  then have "fdiv (f64_of_int (actualComparisons r)) (Fin t) \<noteq> NaN"
    using t(2) by (cases "rnd (of_int (actualComparisons r))")
      (simp_all add: f64_of_int_def rnd_not_NaN signed_inf_def)
  then show ?thesis
    by (cases "fdiv (f64_of_int (actualComparisons r)) (Fin t)")
      (simp_all add: percent_def t rnd_not_NaN signed_inf_def)
qed

lemma mean_without_NaN:
  assumes "\<forall>x\<in>set xs. x \<noteq> NaN" and "xs \<noteq> []"
  shows "series_mean xs = fdiv (series_sum xs) (f64_of_nat (length xs))"
proof -
  have "filter (\<lambda>v. v \<noteq> NaN) xs = xs" using assms(1) by (simp add: filter_id_conv)
  moreover have "map (\<lambda>v. if v = NaN then Fin 0 else v) xs = xs"
    using assms(1) by (simp add: map_idI)
  ultimately show ?thesis
    using assms(2) by (simp add: series_mean_def)
qed

lemma efficiency_valid:
  assumes "has_table d rows" and "rows \<noteq> []"
    and "\<forall>r\<in>set rows. valid_row r \<and> theoreticalComplexity r \<noteq> Fin 0"
  shows "efficiency d =
    Inr (fdiv (series_sum (map percent rows)) (f64_of_nat (length rows)))"
proof -
  have "\<forall>x\<in>set (map percent rows). x \<noteq> NaN"
    using assms(3) by (auto simp: valid_row_def percent_not_NaN)
  then show ?thesis
    using assms(2) by (simp add: efficiency_table [OF assms(1)] mean_without_NaN)
qed
subsection \<open>The first element and rescaled tables\<close>



lemma scale_length [simp]: "length (scale_theoretical c rows) = length rows"
  by (simp add: scale_theoretical_def)






section \<open>The error of the pairwise sum\<close>

lemma adds_lower: "adds c k S y \<Longrightarrow> pow2 (- 1021) \<le> S"
proof (induction rule: adds.induct)
  case (sum k S a k' S' b)
  have "0 < S'" using sum.IH(2) by (rule less_le_trans [OF pow2_pos])
  then show ?case using sum.IH(1) by simp
qed simp_all

lemma adds_near:
  assumes "adds c k S y" and "S \<le> pow2 1021" and "c + k \<le> 2 ^ 52"
  shows "near (c + k) S y"
  using assms
proof (induction rule: adds.induct)
  case (cell x y)
  then show ?case by simp
next
  case (from_zero k S a)
  have n: "near (c + k) S a" using from_zero by simp
  then obtain q where q: "a = Fin q" using near_is_Fin by blast
  have "near (Suc (c + k)) S (rnd q)"
    using n [unfolded q] _ adds_lower [OF from_zero.hyps] from_zero.prems(1)
    by (rule near_rnd) (use from_zero.prems(2) in simp)
  then show ?case by (simp add: q)
next
  case (sum k S a k' S' b)
  have lo: "pow2 (- 1021) \<le> S" "pow2 (- 1021) \<le> S'"
    using sum.hyps by (simp_all add: adds_lower)
  have pos: "0 < S" "0 < S'"
    using lo by (simp_all add: less_le_trans [OF pow2_pos])
  have na: "near (c + k) S a" and nb: "near (c + k') S' b"
    using sum pos by simp_all
  obtain p q where pq: "a = Fin p" "b = Fin q" using na nb near_is_Fin by blast
  have "near (c + max k k') S (Fin p)" and "near (c + max k k') S' (Fin q)"
    using na nb pos by (simp_all add: pq near_mono [where k' = "c + max k k'"])
  then have "near (c + max k k') (S + S') (Fin (p + q))" by (rule near_plus)
  then have "near (Suc (c + max k k')) (S + S') (rnd (p + q))"
  proof (rule near_rnd)
    show "c + max k k' < 2 ^ 52" using sum.prems(2) by simp
    show "pow2 (- 1021) \<le> S + S'" using lo(1) pos(2) by simp
    show "S + S' \<le> pow2 1021" by (rule sum.prems(1))
  qed
  then show ?case by (simp add: pq)
next
  case (deeper k S a k')
  have "0 \<le> S" using adds_lower [OF deeper.hyps(1)] pow2_pos [of "- 1021"] by simp
  then show ?case using deeper by (simp add: near_mono [where k = "c + k"])
qed

lemma fold_adds:
  assumes "list_all2 (adds c 0) xs ys" and "adds c k S acc"
  shows "adds c (k + length ys) (S + sum_list xs) (foldl fadd acc ys)"
  using assms
proof (induction arbitrary: k S acc rule: list_all2_induct)
  case Nil
  then show ?case by simp
next
  case (Cons x xs y ys)
  have "adds c (Suc (max k 0)) (S + x) (fadd acc y)"
    using Cons.prems Cons.hyps(1) by (rule adds.sum)
  then have "adds c (Suc k) (S + x) (fadd acc y)" by simp
  then have "adds c (Suc k + length ys) (S + x + sum_list xs) (foldl fadd (fadd acc y) ys)"
    by (rule Cons.IH)
  then show ?case by (simp add: add.assoc)
qed

lemma fold_zero_adds:
  assumes "list_all2 (adds c 0) xs ys" and "ys \<noteq> []"
  shows "adds c (length ys) (sum_list xs) (foldl fadd (Fin 0) ys)"
proof -
  obtain x xs' y ys' where s: "xs = x # xs'" "ys = y # ys'"
    and h: "adds c 0 x y" and t: "list_all2 (adds c 0) xs' ys'"
    using assms by (cases xs; cases ys) auto
  have "adds c (Suc 0) x (fadd (Fin 0) y)" using h by (rule adds.from_zero)
  then have "adds c (Suc 0 + length ys') (x + sum_list xs') (foldl fadd (fadd (Fin 0) y) ys')"
    using t by (rule fold_adds [rotated])
  then show ?thesis by (simp add: s)
qed

lemma add8_adds:
  assumes "list_all2 (adds c k) Rs r" and "list_all2 (adds c 0) xs ys"
  shows "list_all2 (adds c (Suc k)) (map (\<lambda>(R, x). R + x) (zip Rs xs)) (add8 r ys)"
  using assms
proof (induction arbitrary: xs ys rule: list_all2_induct)
  case Nil
  then show ?case by (simp add: add8_def)
next
  case (Cons R Rs a r)
  show ?case
  proof (cases ys)
    case Nil
    then show ?thesis using Cons.prems by (simp add: add8_def)
  next
    case (Cons y ys')
    then obtain x xs' where xs: "xs = x # xs'" and h: "adds c 0 x y"
      and t: "list_all2 (adds c 0) xs' ys'"
      using Cons.prems by (cases xs) auto
    have "adds c (Suc (max k 0)) (R + x) (fadd a y)"
      using Cons.hyps(1) h by (rule adds.sum)
    moreover have "list_all2 (adds c (Suc k)) (map (\<lambda>(R, x). R + x) (zip Rs xs'))
        (add8 r ys')"
      using t by (rule Cons.IH)
    ultimately show ?thesis by (simp add: xs Cons add8_def)
  qed
qed

lemma sum_zip_add:
  fixes Rs xs :: "rat list"
  assumes "length Rs = length xs"
  shows "sum_list (map (\<lambda>(R, x). R + x) (zip Rs xs)) = sum_list Rs + sum_list xs"
  using assms by (induction Rs xs rule: list_induct2) simp_all

lemma accumulate8_length:
  "length r = 8 \<Longrightarrow> length (accumulate8 r ys) = 8"
proof (induction r ys rule: accumulate8.induct)
  case (1 r xs)
  show ?case
  proof (cases "length xs < 8")
    case True
    then show ?thesis using 1 by (simp add: accumulate8.simps [of r xs])
  next
    case False
    have "length (add8 r (take 8 xs)) = 8" using False 1(2) by (simp add: add8_def)
    then show ?thesis using 1(1) False by (simp add: accumulate8.simps [of r xs])
  qed
qed

lemma block_arith:
  fixes n :: nat
  assumes "8 \<le> n"
  shows "Suc k + (n - 8) div 8 = k + n div 8"
    and "(n - 8) - (n - 8) mod 8 + 8 = n - n mod 8"
proof -
  obtain m where m: "n = m + 8" using assms by (metis le_add_diff_inverse2)
  show "Suc k + (n - 8) div 8 = k + n div 8" by (simp add: m)
  have "m mod 8 \<le> m" by simp
  then show "(n - 8) - (n - 8) mod 8 + 8 = n - n mod 8" by (simp add: m)
qed

lemma accumulate8_adds:
  assumes "list_all2 (adds c k) Rs r" and "length r = 8" and "list_all2 (adds c 0) xs ys"
  shows "\<exists>Rs'. list_all2 (adds c (k + length ys div 8)) Rs' (accumulate8 r ys) \<and>
     sum_list Rs' + sum_list (drop (length xs - length xs mod 8) xs) =
       sum_list Rs + sum_list xs"
  using assms
proof (induction r ys arbitrary: k Rs xs rule: accumulate8.induct)
  case (1 r ys)
  have len: "length xs = length ys" using 1(4) by (rule list_all2_lengthD)
  show ?case
  proof (cases "length ys < 8")
    case True
    then show ?thesis
      using 1(2) len by (auto simp: accumulate8.simps [of r ys])
  next
    case False
    then have n8: "8 \<le> length ys" by simp
    let ?Rs = "map (\<lambda>(R, x). R + x) (zip Rs (take 8 xs))"
    have blk: "list_all2 (adds c 0) (take 8 xs) (take 8 ys)"
      using 1(4) by (rule list_all2_takeI)
    have rest: "list_all2 (adds c 0) (drop 8 xs) (drop 8 ys)"
      using 1(4) by (rule list_all2_dropI)
    have a: "list_all2 (adds c (Suc k)) ?Rs (add8 r (take 8 ys))"
      using 1(2) blk by (rule add8_adds)
    have l: "length (add8 r (take 8 ys)) = 8"
      using 1(3) n8 by (simp add: add8_def)
    obtain Rs' where
      r: "list_all2 (adds c (Suc k + length (drop 8 ys) div 8)) Rs'
           (accumulate8 (add8 r (take 8 ys)) (drop 8 ys))"
      and s: "sum_list Rs' +
          sum_list (drop (length (drop 8 xs) - length (drop 8 xs) mod 8) (drop 8 xs)) =
          sum_list ?Rs + sum_list (drop 8 xs)"
      using 1(1) [OF False a l rest] by blast
    have lr: "length Rs = length (take 8 xs)"
      using 1(2,3) n8 len by (simp add: list_all2_lengthD)
    have "sum_list ?Rs = sum_list Rs + sum_list (take 8 xs)"
      using lr by (rule sum_zip_add)
    moreover have "sum_list (take 8 xs) + sum_list (drop 8 xs) = sum_list xs"
      by (simp add: sum_list_append [symmetric])
    ultimately have total: "sum_list ?Rs + sum_list (drop 8 xs) = sum_list Rs + sum_list xs"
      by simp
    have d: "drop (length (drop 8 xs) - length (drop 8 xs) mod 8) (drop 8 xs) =
        drop (length xs - length xs mod 8) xs"
      using block_arith(2) [OF n8] by (simp add: len)
    have "Suc k + length (drop 8 ys) div 8 = k + length ys div 8"
      using block_arith(1) [OF n8, of k] by simp
    then have "list_all2 (adds c (k + length ys div 8)) Rs'
        (accumulate8 (add8 r (take 8 ys)) (drop 8 ys))"
      using r by (simp only:)
    then have "list_all2 (adds c (k + length ys div 8)) Rs' (accumulate8 r ys)"
      using False by (simp add: accumulate8.simps [of r ys])
    then show ?thesis using s total d by auto
  qed
qed

lemma list8:
  assumes "length r = 8"
  shows "r = [r ! 0, r ! 1, r ! 2, r ! 3, r ! 4, r ! 5, r ! 6, r ! 7]"
  using assms by (auto simp: length_Suc_conv eval_nat_numeral)

lemma tree_adds:
  assumes "list_all2 (adds c k) Rs r" and "length r = 8"
  shows "adds c (k + 3) (sum_list Rs)
    (fadd (fadd (fadd (r ! 0) (r ! 1)) (fadd (r ! 2) (r ! 3)))
       (fadd (fadd (r ! 4) (r ! 5)) (fadd (r ! 6) (r ! 7))))"
proof -
  have lR: "length Rs = 8" using assms by (simp add: list_all2_lengthD)
  have nth: "adds c k (Rs ! i) (r ! i)" if "i < 8" for i
    using assms that by (simp add: list_all2_nthD2)
  have p: "adds c (Suc k) (Rs ! i + Rs ! j) (fadd (r ! i) (r ! j))"
    if "i < 8" and "j < 8" for i j
    using adds.sum [OF nth [OF that(1)] nth [OF that(2)]] by simp
  have q: "adds c (Suc (Suc k)) (Rs ! 0 + Rs ! 1 + (Rs ! 2 + Rs ! 3))
      (fadd (fadd (r ! 0) (r ! 1)) (fadd (r ! 2) (r ! 3)))"
    using adds.sum [OF p [of 0 1] p [of 2 3]] by simp
  have q': "adds c (Suc (Suc k)) (Rs ! 4 + Rs ! 5 + (Rs ! 6 + Rs ! 7))
      (fadd (fadd (r ! 4) (r ! 5)) (fadd (r ! 6) (r ! 7)))"
    using adds.sum [OF p [of 4 5] p [of 6 7]] by simp
  have "sum_list Rs = sum_list [Rs ! 0, Rs ! 1, Rs ! 2, Rs ! 3, Rs ! 4, Rs ! 5, Rs ! 6, Rs ! 7]"
    using list8 [OF lR] by simp
  then have "sum_list Rs =
      Rs ! 0 + Rs ! 1 + (Rs ! 2 + Rs ! 3) + (Rs ! 4 + Rs ! 5 + (Rs ! 6 + Rs ! 7))"
    by simp
  then show ?thesis using adds.sum [OF q q'] by (simp add: eval_nat_numeral)
qed

lemma unrolled_depth:
  fixes n :: nat
  assumes "8 \<le> n"
  shows "(n - 8) div 8 + 3 + n mod 8 \<le> n"
proof -
  obtain m where m: "n = m + 8" using assms by (metis le_add_diff_inverse2)
  have "8 * (m div 8) + m mod 8 = m" by (rule mult_div_mod_eq)
  then have "m div 8 + m mod 8 \<le> m" by linarith
  then show ?thesis by (simp add: m)
qed

lemma unrolled_adds:
  assumes "list_all2 (adds c 0) xs ys" and "8 \<le> length ys"
  shows "adds c (length ys) (sum_list xs) (unrolled_sum ys)"
proof -
  have len: "length xs = length ys" using assms(1) by (rule list_all2_lengthD)
  define r where "r = accumulate8 (take 8 ys) (drop 8 ys)"
  define m where "m = length ys - length ys mod 8"
  have first: "list_all2 (adds c 0) (take 8 xs) (take 8 ys)"
    using assms(1) by (rule list_all2_takeI)
  have rest: "list_all2 (adds c 0) (drop 8 xs) (drop 8 ys)"
    using assms(1) by (rule list_all2_dropI)
  have l8: "length (take 8 ys) = 8" using assms(2) by simp
  obtain Rs where
    R: "list_all2 (adds c (0 + length (drop 8 ys) div 8)) Rs r"
    and s: "sum_list Rs +
        sum_list (drop (length (drop 8 xs) - length (drop 8 xs) mod 8) (drop 8 xs)) =
        sum_list (take 8 xs) + sum_list (drop 8 xs)"
    using accumulate8_adds [OF first l8 rest] unfolding r_def by blast
  have lr: "length r = 8" unfolding r_def using l8 by (rule accumulate8_length)
  have d: "drop (length (drop 8 xs) - length (drop 8 xs) mod 8) (drop 8 xs) = drop m xs"
    using block_arith(2) [OF assms(2)] by (simp add: len m_def)
  have "sum_list (take 8 xs) + sum_list (drop 8 xs) = sum_list xs"
    by (simp add: sum_list_append [symmetric])
  then have total: "sum_list Rs + sum_list (drop m xs) = sum_list xs"
    using s d by simp
  have t: "adds c (0 + length (drop 8 ys) div 8 + 3) (sum_list Rs)
      (fadd (fadd (fadd (r ! 0) (r ! 1)) (fadd (r ! 2) (r ! 3)))
         (fadd (fadd (r ! 4) (r ! 5)) (fadd (r ! 6) (r ! 7))))"
    using R lr by (rule tree_adds)
  have tail: "list_all2 (adds c 0) (drop m xs) (drop m ys)"
    using assms(1) by (rule list_all2_dropI)
  have "adds c (0 + length (drop 8 ys) div 8 + 3 + length (drop m ys))
      (sum_list Rs + sum_list (drop m xs))
      (foldl fadd (fadd (fadd (fadd (r ! 0) (r ! 1)) (fadd (r ! 2) (r ! 3)))
         (fadd (fadd (r ! 4) (r ! 5)) (fadd (r ! 6) (r ! 7)))) (drop m ys))"
    using tail t by (rule fold_adds)
  then have a: "adds c ((length ys - 8) div 8 + 3 + length ys mod 8) (sum_list xs)
      (unrolled_sum ys)"
    by (simp add: total unrolled_sum_def Let_def r_def [symmetric] m_def [symmetric])
      (simp add: m_def)
  show ?thesis using a unrolled_depth [OF assms(2)] by (rule adds.deeper)
qed

lemma split_point_bounds:
  assumes "128 < n"
  shows "0 < split_point n" and "split_point n < n" and "Suc (max (split_point n) (n - split_point n)) \<le> n"
proof -
  have "n div 2 mod 8 < 8" by simp
  moreover have "64 \<le> n div 2" using assms by simp
  ultimately have a: "0 < split_point n" "split_point n \<le> n div 2"
    by (simp_all add: split_point_def)
  show "0 < split_point n" by (rule a(1))
  have "n div 2 < n" using assms by simp
  then show "split_point n < n" using a(2) by simp
  then show "Suc (max (split_point n) (n - split_point n)) \<le> n" using a(1) by simp
qed

lemma pairwise_adds:
  assumes "list_all2 (adds c 0) xs ys" and "ys \<noteq> []"
  shows "adds c (length ys) (sum_list xs) (pairwise_sum ys)"
  using assms
proof (induction ys arbitrary: xs rule: pairwise_sum.induct)
  case (1 ys)
  have len: "length xs = length ys" using 1(3) by (rule list_all2_lengthD)
  consider "length ys < 8" | "8 \<le> length ys" "length ys \<le> 128" | "128 < length ys"
    by linarith
  then show ?case
  proof cases
    case 1
    then show ?thesis
      using fold_zero_adds [OF "1.prems"] by (simp add: pairwise_sum.simps [of ys])
  next
    case 2
    then show ?thesis
      using unrolled_adds [OF "1.prems"(1)] by (simp add: pairwise_sum.simps [of ys])
  next
    case 3
    define n where "n = split_point (length ys)"
    have n: "0 < n" "n < length ys" "Suc (max n (length ys - n)) \<le> length ys"
      using split_point_bounds [OF 3] by (simp_all add: n_def)
    have c: "\<not> length ys < 8" "\<not> length ys \<le> 128" using 3 by simp_all
    have l: "list_all2 (adds c 0) (take n xs) (take n ys)"
      using "1.prems"(1) by (rule list_all2_takeI)
    have r: "list_all2 (adds c 0) (drop n xs) (drop n ys)"
      using "1.prems"(1) by (rule list_all2_dropI)
    have nl: "take n ys \<noteq> []" and nr: "drop n ys \<noteq> []" using n by auto
    have a: "adds c (length (take n ys)) (sum_list (take n xs)) (pairwise_sum (take n ys))"
      using "1.IH"(1) [OF c l [unfolded n_def] nl [unfolded n_def]] by (simp add: n_def)
    have b: "adds c (length (drop n ys)) (sum_list (drop n xs)) (pairwise_sum (drop n ys))"
      using "1.IH"(2) [OF c r [unfolded n_def] nr [unfolded n_def]] by (simp add: n_def)
    have "sum_list (take n xs) + sum_list (drop n xs) = sum_list xs"
      by (simp add: sum_list_append [symmetric])
    then have "adds c (Suc (max n (length ys - n))) (sum_list xs)
        (fadd (pairwise_sum (take n ys)) (pairwise_sum (drop n ys)))"
      using adds.sum [OF a b] n(2) by (simp add: min_def)
    then have "adds c (length ys) (sum_list xs)
        (fadd (pairwise_sum (take n ys)) (pairwise_sum (drop n ys)))"
      using n(3) by (rule adds.deeper)
    then show ?thesis using c by (simp add: pairwise_sum.simps [of ys] n_def)
  qed
qed

lemma series_sum_adds:
  assumes "list_all2 (adds c 0) xs ys" and "ys \<noteq> []"
  shows "adds c (Suc (length ys)) (sum_list xs) (series_sum ys)"
  unfolding series_sum_def using pairwise_adds [OF assms] by (rule adds.from_zero)

lemma near_abs:
  assumes "near k M (Fin v)" and "0 \<le> M" and "k \<le> 2 ^ 52"
  shows "\<bar>v - M\<bar> \<le> M * of_nat k / 2 ^ 52"
proof -
  define u :: rat where "u = 1 / 2 ^ 53"
  have u: "0 \<le> u" "u \<le> 1" by (simp_all add: u_def)
  have ku: "2 * of_nat k * u \<le> 1"
    using of_nat_le_pow52 [OF assms(3)] by (simp add: u_def)
  have lo: "M * (1 - u) ^ k \<le> v" and hi: "v \<le> M * (1 + u) ^ k"
    using assms(1) by (simp_all add: near_Fin u_def)
  have "M * (1 - of_nat k * u) \<le> M * (1 - u) ^ k"
    using bernoulli_down [OF u, of k] assms(2) by (rule mult_left_mono)
  then have l: "M - M * (of_nat k * u) \<le> v" using lo by (simp add: algebra_simps)
  have "M * (1 + u) ^ k \<le> M * (1 + 2 * of_nat k * u)"
    using bernoulli_up [OF u(1) ku] assms(2) by (rule mult_left_mono)
  then have h: "v \<le> M + 2 * (M * (of_nat k * u))" using hi by (simp add: algebra_simps)
  have "0 \<le> M * (of_nat k * u)" using assms(2) u(1) by simp
  then have "\<bar>v - M\<bar> \<le> 2 * (M * (of_nat k * u))" using l h by linarith
  also have "\<dots> = M * of_nat k / 2 ^ 52" by (simp add: u_def)
  finally show ?thesis .
qed

lemma pow2_numeral_bounds:
  "pow2 (- 1021) \<le> 1" "(2 :: rat) ^ 63 \<le> pow2 1021" "pow2 (- 1021) \<le> pow2 (- 990)"
  "pow2 990 \<le> pow2 1021" "pow2 990 * 100 \<le> pow2 997" "pow2 997 \<le> pow2 1021"
  "2 ^ 20 * pow2 997 \<le> pow2 1021"
proof -
  show "pow2 (- 1021) \<le> 1" using pow2_mono [of "- 1021" 0] by simp
  have "(2 :: rat) ^ 63 = pow2 63" by (simp add: pow2_def)
  then show "(2 :: rat) ^ 63 \<le> pow2 1021" using pow2_mono [of 63 1021] by simp
  show "pow2 (- 1021) \<le> pow2 (- 990)" by (rule pow2_mono) simp
  show "pow2 990 \<le> pow2 1021" by (rule pow2_mono) simp
  have "pow2 997 = pow2 990 * pow2 7" using pow2_add [of 990 7] by simp
  also have "pow2 7 = 128" by (simp add: pow2_def)
  finally have e: "pow2 997 = pow2 990 * 128" .
  show "pow2 990 * 100 \<le> pow2 997" unfolding e using pow2_pos [of 990] by simp
  show "pow2 997 \<le> pow2 1021" by (rule pow2_mono) simp
  have "pow2 1017 = pow2 20 * pow2 997" using pow2_add [of 20 997] by simp
  also have "pow2 20 = 2 ^ 20" by (simp add: pow2_def)
  finally have "2 ^ 20 * pow2 997 = pow2 1017" by simp
  then show "2 ^ 20 * pow2 997 \<le> pow2 1021" using pow2_mono [of 1017 1021] by simp
qed

lemma percent_regular:
  assumes "regular_row r"
  shows "near 3 (exact_percent r) (percent r)"
    and "pow2 (- 1021) \<le> exact_percent r" and "exact_percent r \<le> pow2 997"
proof -
  define A :: rat where "A = of_int (actualComparisons r)"
  obtain t where t: "theoreticalComplexity r = Fin t" "0 < t"
    and lo: "pow2 (- 990) \<le> A / t" and hi: "A / t \<le> pow2 990"
    and ac: "0 < actualComparisons r" "actualComparisons r < 2 ^ 63"
    using assms by (auto simp: regular_row_def A_def split: f64.splits)
  have "1 \<le> actualComparisons r" using ac(1) by simp
  then have "(of_int 1 :: rat) \<le> of_int (actualComparisons r)" by (simp only: of_int_le_iff)
  then have A1: "1 \<le> A" by (simp add: A_def)
  have "(of_int (actualComparisons r) :: rat) < of_int (2 ^ 63)"
    using ac(2) by (simp only: of_int_less_iff)
  then have A2: "A \<le> 2 ^ 63" by (simp add: A_def)
  have q0: "0 < A / t" using lo by (rule less_le_trans [OF pow2_pos])
  have ep: "exact_percent r = A / t * 100" by (simp add: exact_percent_def t A_def)
  have "near 0 A (Fin A)" by (simp add: near_Fin)
  then have "near (Suc 0) A (rnd A)"
    using A1 A2 pow2_numeral_bounds(1,2) by (intro near_rnd) simp_all
  then obtain a where a: "rnd A = Fin a" "near (Suc 0) A (Fin a)"
    using near_is_Fin by force
  have "near (Suc 0) (1 / t * A) (Fin (1 / t * a))"
    using a(2) t(2) by (intro near_scale) simp_all
  then have "near (Suc 0) (A / t) (Fin (a / t))" by simp
  then have "near (Suc (Suc 0)) (A / t) (rnd (a / t))"
    using lo hi pow2_numeral_bounds(3,4) by (intro near_rnd) simp_all
  then obtain q where q: "rnd (a / t) = Fin q" "near (Suc (Suc 0)) (A / t) (Fin q)"
    using near_is_Fin by force
  have "near (Suc (Suc 0)) (100 * (A / t)) (Fin (100 * q))"
    using q(2) by (intro near_scale) simp_all
  then have s: "near (Suc (Suc 0)) (A / t * 100) (Fin (q * 100))"
    by (simp add: mult.commute)
  have "A / t * 100 \<le> pow2 990 * 100"
    using hi by (intro mult_right_mono) simp_all
  then have up: "A / t * 100 \<le> pow2 997"
    using pow2_numeral_bounds(5) by (rule order_trans)
  have "A / t * 1 \<le> A / t * 100"
    using q0 by (intro mult_left_mono) simp_all
  then have down: "pow2 (- 1021) \<le> A / t * 100"
    using lo pow2_numeral_bounds(3) by linarith
  have "near (Suc (Suc (Suc 0))) (A / t * 100) (rnd (q * 100))"
    using s _ down by (rule near_rnd) (use up pow2_numeral_bounds(6) in simp_all)
  moreover have "percent r = rnd (q * 100)"
    using t(2) by (simp add: percent_def f64_of_int_def t(1) A_def [symmetric] a(1) q(1))
  ultimately show "near 3 (exact_percent r) (percent r)"
    by (simp add: ep eval_nat_numeral)
  show "pow2 (- 1021) \<le> exact_percent r" using down by (simp add: ep)
  show "exact_percent r \<le> pow2 997" using up by (simp add: ep)
qed

lemma sum_list_upper:
  fixes xs :: "rat list"
  assumes "\<forall>x\<in>set xs. x \<le> B"
  shows "sum_list xs \<le> of_nat (length xs) * B"
  using assms by (induction xs) (simp_all add: algebra_simps add_mono)

lemma sum_list_lower:
  fixes xs :: "rat list"
  assumes "\<forall>x\<in>set xs. B \<le> x"
  shows "of_nat (length xs) * B \<le> sum_list xs"
  using assms by (induction xs) (simp_all add: algebra_simps add_mono)

lemma f64_of_nat_exact:
  assumes "n < 2 ^ 53"
  shows "f64_of_nat n = Fin (of_nat n)"
proof -
  have "int n < 2 ^ 53" using assms by (metis of_nat_less_numeral_power_cancel_iff)
  then have "\<bar>int n\<bar> < 2 ^ 53" by simp
  then have "rnd (of_int (int n) * pow2 0) = Fin (of_int (int n) * pow2 0)"
    by (rule rnd_representable) simp_all
  then show ?thesis by (simp add: f64_of_nat_def)
qed

lemma efficiency_error:
  assumes "has_table d rows" and "rows \<noteq> []" and "length rows < 2 ^ 20"
    and "\<forall>r\<in>set rows. regular_row r"
  shows "\<exists>v. efficiency d = Inr (Fin v) \<and>
     \<bar>v - arithmetic_mean (map exact_percent rows)\<bar> \<le>
       arithmetic_mean (map exact_percent rows) * of_nat (length rows + 5) / 2 ^ 52"
proof -
  define N :: rat where "N = of_nat (length rows)"
  define T where "T = sum_list (map exact_percent rows)"
  have N0: "0 < N" using assms(2) by (simp add: N_def)
  have "(of_nat (length rows) :: rat) < of_nat (2 ^ 20)"
    using assms(3) by (simp only: of_nat_less_iff)
  then have N20: "N \<le> 2 ^ 20" by (simp add: N_def)
  have cells: "list_all2 (adds 3 0) (map exact_percent rows) (map percent rows)"
    using assms(4) percent_regular
    by (simp add: list.rel_map list_all2_same adds.cell)
  have "T \<le> N * pow2 997"
    unfolding T_def N_def using sum_list_upper [of "map exact_percent rows" "pow2 997"]
      assms(4) percent_regular(3) by simp
  also have "\<dots> \<le> 2 ^ 20 * pow2 997"
    using N20 pow2_pos [of 997] by (intro mult_right_mono) simp_all
  finally have T_up: "T \<le> 2 ^ 20 * pow2 997" .
  then have T_hi: "T \<le> pow2 1021" using pow2_numeral_bounds(7) by simp
  have T_lo: "N * pow2 (- 1021) \<le> T"
    unfolding T_def N_def using sum_list_lower [of "map exact_percent rows" "pow2 (- 1021)"]
      assms(4) percent_regular(2) by simp
  have k: "3 + Suc (length rows) \<le> 2 ^ 52" using assms(3) by simp
  have "adds 3 (Suc (length (map percent rows))) T (series_sum (map percent rows))"
    unfolding T_def using cells by (rule series_sum_adds) (use assms(2) in simp)
  then have "adds 3 (Suc (length rows)) T (series_sum (map percent rows))" by simp
  then have "near (3 + Suc (length rows)) T (series_sum (map percent rows))"
    using T_hi k by (rule adds_near)
  then obtain s where s: "series_sum (map percent rows) = Fin s"
    "near (3 + Suc (length rows)) T (Fin s)"
    using near_is_Fin by force
  have "near (3 + Suc (length rows)) (1 / N * T) (Fin (1 / N * s))"
    using s(2) N0 by (intro near_scale) simp_all
  then have m: "near (3 + Suc (length rows)) (T / N) (Fin (s / N))" by simp
  have M_lo: "pow2 (- 1021) \<le> T / N" using T_lo N0 by (simp add: pos_le_divide_eq mult.commute)
  have "T \<le> N * pow2 997" by fact
  then have M_up: "T / N \<le> pow2 997" using N0 by (simp add: pos_divide_le_eq mult.commute)
  then have M_hi: "T / N \<le> pow2 1021" using pow2_numeral_bounds(6) by simp
  have "near (Suc (3 + Suc (length rows))) (T / N) (rnd (s / N))"
    using m _ M_lo M_hi by (rule near_rnd) (use assms(3) in simp)
  then obtain v where v: "rnd (s / N) = Fin v" "near (length rows + 5) (T / N) (Fin v)"
    using near_is_Fin by (force simp: add.commute)
  have "0 \<le> T / N" using M_lo pow2_pos [of "- 1021"] by simp
  moreover have "length rows + 5 \<le> 2 ^ 52" using assms(3) by simp
  ultimately have bound: "\<bar>v - T / N\<bar> \<le> T / N * of_nat (length rows + 5) / 2 ^ 52"
    using v(2) by (intro near_abs)
  have "\<forall>x\<in>set (map percent rows). x \<noteq> NaN"
    using assms(4) percent_regular(1) near_is_Fin by fastforce
  then have "series_mean (map percent rows) =
      fdiv (series_sum (map percent rows)) (f64_of_nat (length (map percent rows)))"
    by (rule mean_without_NaN) (use assms(2) in simp)
  also have "\<dots> = fdiv (Fin s) (Fin N)"
    using assms(3) by (simp add: s(1) f64_of_nat_exact N_def)
  also have "\<dots> = Fin v" using N0 v(1) by simp
  finally have "efficiency d = Inr (Fin v)"
    by (simp add: efficiency_table [OF assms(1)])
  then show ?thesis using bound by (simp add: arithmetic_mean_def T_def N_def)
qed


section \<open>Properties of the script\<close>

lemma stmt_keeps_df:
  assumes "f \<in> set (statements e)" and "f s = Inr s'"
  shows "df s' = df s"
proof -
  have "errorbar_stmt s = Inr s' \<Longrightarrow> df s' = df s"
    by (auto simp: errorbar_stmt_def and_then_eq_Inr)
  moreover have "normalize_stmt s = Inr s' \<Longrightarrow> df s' = df s"
    by (auto simp: normalize_stmt_def and_then_eq_Inr)
  moreover have "plot_stmt s = Inr s' \<Longrightarrow> df s' = df s"
    by (auto simp: plot_stmt_def and_then_eq_Inr split: option.splits)
  moreover have "loglog_actual_stmt s = Inr s' \<Longrightarrow> df s' = df s"
    by (auto simp: loglog_actual_stmt_def and_then_eq_Inr)
  moreover have "loglog_theory_stmt s = Inr s' \<Longrightarrow> df s' = df s"
    by (auto simp: loglog_theory_stmt_def and_then_eq_Inr)
  moreover have "efficiency_stmt s = Inr s' \<Longrightarrow> df s' = df s"
    by (auto simp: efficiency_stmt_def and_then_eq_Inr)
  moreover have "figtext_stmt s = Inr s' \<Longrightarrow> df s' = df s"
    by (auto simp: figtext_stmt_def split: option.splits)
  moreover have "savefig_stmt e s = Inr s' \<Longrightarrow> df s' = df s"
    by (auto simp: savefig_stmt_def split: if_splits)
  moreover have "print_stmt s = Inr s' \<Longrightarrow> df s' = df s"
    by (auto simp: print_stmt_def)
  ultimately show ?thesis using assms by (auto simp: statements_def)
qed

lemma run_keeps_df:
  assumes "\<forall>f\<in>set fs. \<forall>s s'. f s = Inr s' \<longrightarrow> df s' = df s"
    and "run fs s = Inr s'"
  shows "df s' = df s"
  using assms
proof (induction fs arbitrary: s)
  case Nil
  then show ?case by simp
next
  case (Cons f fs)
  from Cons.prems(2) obtain s1 where s1: "f s = Inr s1" "run fs s1 = Inr s'"
    by (auto simp: and_then_eq_Inr)
  have "df s1 = df s" using Cons.prems(1) s1(1) by simp
  moreover have "df s' = df s1" using Cons.IH [OF _ s1(2)] Cons.prems(1) by simp
  ultimately show ?case by simp
qed

lemma run_reaches:
  assumes "\<forall>f\<in>set fs. \<forall>s s'. f s = Inr s' \<longrightarrow> df s' = df s"
    and "run fs s = Inr s'" and "f \<in> set fs"
  shows "\<exists>s1 s2. df s1 = df s \<and> f s1 = Inr s2"
  using assms
proof (induction fs arbitrary: s)
  case Nil
  then show ?case by simp
next
  case (Cons g fs)
  from Cons.prems(2) obtain s1 where s1: "g s = Inr s1" "run fs s1 = Inr s'"
    by (auto simp: and_then_eq_Inr)
  have d: "df s1 = df s" using Cons.prems(1) s1(1) by simp
  show ?case
  proof (cases "f = g")
    case True
    then show ?thesis using s1(1) by blast
  next
    case False
    then have "f \<in> set fs" using Cons.prems(3) by simp
    moreover have "\<forall>f\<in>set fs. \<forall>s s'. f s = Inr s' \<longrightarrow> df s' = df s"
      using Cons.prems(1) by simp
    ultimately obtain t1 t2 where "df t1 = df s1" "f t1 = Inr t2"
      using Cons.IH [OF _ s1(2)] by blast
    then show ?thesis using d by auto
  qed
qed

lemma stmts_keep_df: "\<forall>f\<in>set (statements e). \<forall>s s'. f s = Inr s' \<longrightarrow> df s' = df s"
  using stmt_keeps_df by blast

lemma script_reads_required:
  assumes "run (statements e) s = Inr s'" and "c \<in> set required_columns"
  shows "map_of (df s) c \<noteq> None"
proof -
  note keep = stmts_keep_df [of e]
  obtain s1 s2 where a: "df s1 = df s" "errorbar_stmt s1 = Inr s2"
    using run_reaches [where f = errorbar_stmt, OF keep assms(1)] by (auto simp: statements_def)
  obtain t1 t2 where b: "df t1 = df s" "loglog_actual_stmt t1 = Inr t2"
    using run_reaches [where f = loglog_actual_stmt, OF keep assms(1)] by (auto simp: statements_def)
  obtain u1 u2 where c: "df u1 = df s" "loglog_theory_stmt u1 = Inr u2"
    using run_reaches [where f = loglog_theory_stmt, OF keep assms(1)] by (auto simp: statements_def)
  have "map_of (df s) ''GridSize'' \<noteq> None" "map_of (df s) ''ActualTime'' \<noteq> None"
    "map_of (df s) ''StdDev'' \<noteq> None"
    using a by (auto simp: errorbar_stmt_def and_then_eq_Inr getitem_eq_Inr)
  moreover have "map_of (df s) ''ActualComparisons'' \<noteq> None"
    using b by (auto simp: loglog_actual_stmt_def and_then_eq_Inr getitem_eq_Inr)
  moreover have "map_of (df s) ''TheoreticalComplexity'' \<noteq> None"
    using c by (auto simp: loglog_theory_stmt_def and_then_eq_Inr getitem_eq_Inr)
  ultimately show ?thesis using assms(2) by (auto simp: required_columns_def)
qed

lemma script_spec_env: "\<exists>s. script spec_env = Inr s"
  by (simp add: script_def read_csv_def spec_env_def to_frame_def spec_rows_def statements_def
      loaded_def errorbar_stmt_def normalize_stmt_def plot_stmt_def loglog_actual_stmt_def
      loglog_theory_stmt_def efficiency_stmt_def figtext_stmt_def savefig_stmt_def
      print_stmt_def getitem_def theoretical_normalized_def efficiency_def iloc_def)
section \<open>The example tables, evaluated\<close>

lemma rnd_value_1: "rnd (1 / 1000) = Fin (1152921504606847 / 1152921504606846976)"
  by (simp add: rnd_eval [of "- 62"] rnd_calc)

lemma rnd_value_2: "rnd (1 / 96) = Fin (6004799503160661 / 576460752303423488)"
  by (simp add: rnd_eval [of "- 59"] rnd_calc)

lemma rnd_value_3: "rnd (1 / 49) = Fin (5882252574524729 / 288230376151711744)"
  by (simp add: rnd_eval [of "- 58"] rnd_calc)

lemma rnd_value_4: "rnd (1 / 32) = Fin (1 / 32)"
  by (simp add: rnd_eval [of "- 57"] rnd_calc)

lemma rnd_value_5: "rnd (5 / 96) = Fin (7505999378950827 / 144115188075855872)"
  by (simp add: rnd_eval [of "- 57"] rnd_calc)

lemma rnd_value_6: "rnd (1 / 10) = Fin (3602879701896397 / 36028797018963968)"
  by (simp add: rnd_eval [of "- 56"] rnd_calc)

lemma rnd_value_7: "rnd (28823037615171175 / 288230376151711744) = Fin (3602879701896397 / 36028797018963968)"
  by (simp add: rnd_eval [of "- 56"] rnd_calc)

lemma rnd_value_8: "rnd (5 / 48) = Fin (7505999378950827 / 72057594037927936)"
  by (simp add: rnd_eval [of "- 56"] rnd_calc)

lemma rnd_value_9: "rnd (1 / 5) = Fin (3602879701896397 / 18014398509481984)"
  by (simp add: rnd_eval [of "- 55"] rnd_calc)

lemma rnd_value_10: "rnd (3602879701896397 / 18014398509481984) = Fin (3602879701896397 / 18014398509481984)"
  by (simp add: rnd_eval [of "- 55"] rnd_calc)

lemma rnd_value_11: "rnd (1 / 4) = Fin (1 / 4)"
  by (simp add: rnd_eval [of "- 54"] rnd_calc)

lemma rnd_value_12: "rnd (3602879701896397 / 9007199254740992) = Fin (3602879701896397 / 9007199254740992)"
  by (simp add: rnd_eval [of "- 54"] rnd_calc)

lemma rnd_value_13: "rnd (1 / 2) = Fin (1 / 2)"
  by (simp add: rnd_eval [of "- 53"] rnd_calc)

lemma rnd_value_14: "rnd (3602879701896397 / 4503599627370496) = Fin (3602879701896397 / 4503599627370496)"
  by (simp add: rnd_eval [of "- 53"] rnd_calc)

lemma rnd_value_15: "rnd (32425917317067573 / 36028797018963968) = Fin (8106479329266893 / 9007199254740992)"
  by (simp add: rnd_eval [of "- 53"] rnd_calc)

lemma rnd_value_16: "rnd (125 / 128) = Fin (125 / 128)"
  by (simp add: rnd_eval [of "- 53"] rnd_calc)

lemma rnd_value_17: "rnd (288230376151711721 / 288230376151711744) = Fin (9007199254740991 / 9007199254740992)"
  by (simp add: rnd_eval [of "- 53"] rnd_calc)

lemma rnd_value_18: "rnd 1 = Fin 1"
  by (simp add: rnd_eval [of "- 52"] rnd_calc)

lemma rnd_value_19: "rnd (36028797018963969 / 36028797018963968) = Fin 1"
  by (simp add: rnd_eval [of "- 52"] rnd_calc)

lemma rnd_value_20: "rnd (25 / 24) = Fin (4691249611844267 / 4503599627370496)"
  by (simp add: rnd_eval [of "- 52"] rnd_calc)

lemma rnd_value_21: "rnd (11 / 10) = Fin (2476979795053773 / 2251799813685248)"
  by (simp add: rnd_eval [of "- 52"] rnd_calc)

lemma rnd_value_22: "rnd 2 = Fin 2"
  by (simp add: rnd_eval [of "- 51"] rnd_calc)

lemma rnd_value_23: "rnd 3 = Fin 3"
  by (simp add: rnd_eval [of "- 51"] rnd_calc)

lemma rnd_value_24: "rnd (90071992547409915 / 9007199254740992) = Fin 10"
  by (simp add: rnd_eval [of "- 49"] rnd_calc)

lemma rnd_value_25: "rnd 10 = Fin 10"
  by (simp add: rnd_eval [of "- 49"] rnd_calc)

lemma rnd_value_26: "rnd (22517998136852481 / 2251799813685248) = Fin 10"
  by (simp add: rnd_eval [of "- 49"] rnd_calc)

lemma rnd_value_27: "rnd 11 = Fin 11"
  by (simp add: rnd_eval [of "- 49"] rnd_calc)

lemma rnd_value_28: "rnd 20 = Fin 20"
  by (simp add: rnd_eval [of "- 48"] rnd_calc)

lemma rnd_value_29: "rnd (90071992547409925 / 4503599627370496) = Fin 20"
  by (simp add: rnd_eval [of "- 48"] rnd_calc)

lemma rnd_value_30: "rnd 25 = Fin 25"
  by (simp add: rnd_eval [of "- 48"] rnd_calc)

lemma rnd_value_31: "rnd 50 = Fin 50"
  by (simp add: rnd_eval [of "- 47"] rnd_calc)

lemma rnd_value_32: "rnd (30023997515803305 / 562949953421312) = Fin (3752999689475413 / 70368744177664)"
  by (simp add: rnd_eval [of "- 47"] rnd_calc)

lemma rnd_value_33: "rnd (7505999378950827 / 140737488355328) = Fin (7505999378950827 / 140737488355328)"
  by (simp add: rnd_eval [of "- 47"] rnd_calc)

lemma rnd_value_34: "rnd (175 / 3) = Fin (8209686820727467 / 140737488355328)"
  by (simp add: rnd_eval [of "- 47"] rnd_calc)

lemma rnd_value_35: "rnd 75 = Fin 75"
  by (simp add: rnd_eval [of "- 46"] rnd_calc)

lemma rnd_value_36: "rnd 80 = Fin 80"
  by (simp add: rnd_eval [of "- 46"] rnd_calc)

lemma rnd_value_37: "rnd (8444249301319681 / 105553116266496) = Fin (5629499534213121 / 70368744177664)"
  by (simp add: rnd_eval [of "- 46"] rnd_calc)

lemma rnd_value_38: "rnd (3125 / 32) = Fin (3125 / 32)"
  by (simp add: rnd_eval [of "- 46"] rnd_calc)

lemma rnd_value_39: "rnd (5268493216426667 / 52776558133248) = Fin (7024657621902223 / 70368744177664)"
  by (simp add: rnd_eval [of "- 46"] rnd_calc)

lemma rnd_value_40: "rnd 100 = Fin 100"
  by (simp add: rnd_eval [of "- 46"] rnd_calc)

lemma rnd_value_41: "rnd (7330077518506667 / 70368744177664) = Fin (7330077518506667 / 70368744177664)"
  by (simp add: rnd_eval [of "- 46"] rnd_calc)

lemma rnd_value_42: "rnd (117281240296106675 / 1125899906842624) = Fin (7330077518506667 / 70368744177664)"
  by (simp add: rnd_eval [of "- 46"] rnd_calc)

lemma rnd_value_43: "rnd (61924494876344325 / 562949953421312) = Fin (7740561859543041 / 70368744177664)"
  by (simp add: rnd_eval [of "- 46"] rnd_calc)

lemma rnd_value_44: "rnd (7740561859543041 / 70368744177664) = Fin (7740561859543041 / 70368744177664)"
  by (simp add: rnd_eval [of "- 46"] rnd_calc)

lemma rnd_value_45: "rnd 125 = Fin 125"
  by (simp add: rnd_eval [of "- 46"] rnd_calc)

lemma rnd_value_46: "rnd (9147936743096321 / 70368744177664) = Fin 130"
  by (simp add: rnd_eval [of "- 45"] rnd_calc)

lemma rnd_value_47: "rnd 175 = Fin 175"
  by (simp add: rnd_eval [of "- 45"] rnd_calc)

lemma rnd_value_48: "rnd 192 = Fin 192"
  by (simp add: rnd_eval [of "- 45"] rnd_calc)

lemma rnd_value_49: "rnd (14202025192106667 / 70368744177664) = Fin (3550506298026667 / 17592186044416)"
  by (simp add: rnd_eval [of "- 45"] rnd_calc)

lemma rnd_value_50: "rnd (7740561859543041 / 35184372088832) = Fin (7740561859543041 / 35184372088832)"
  by (simp add: rnd_eval [of "- 45"] rnd_calc)

lemma rnd_value_51: "rnd 240 = Fin 240"
  by (simp add: rnd_eval [of "- 45"] rnd_calc)

lemma rnd_value_52: "rnd (16888498602639361 / 70368744177664) = Fin 240"
  by (simp add: rnd_eval [of "- 45"] rnd_calc)

lemma rnd_value_53: "rnd (8444249301319681 / 35184372088832) = Fin (8444249301319681 / 35184372088832)"
  by (simp add: rnd_eval [of "- 45"] rnd_calc)

lemma rnd_value_54: "rnd (150119987579016525 / 562949953421312) = Fin (2345624805922133 / 8796093022208)"
  by (simp add: rnd_eval [of "- 44"] rnd_calc)

lemma rnd_value_55: "rnd (37529996894754135 / 140737488355328) = Fin (4691249611844267 / 17592186044416)"
  by (simp add: rnd_eval [of "- 44"] rnd_calc)

lemma rnd_value_56: "rnd (5268493216426667 / 17592186044416) = Fin (5268493216426667 / 17592186044416)"
  by (simp add: rnd_eval [of "- 44"] rnd_calc)

lemma rnd_value_57: "rnd 500 = Fin 500"
  by (simp add: rnd_eval [of "- 44"] rnd_calc)

lemma rnd_value_58: "rnd 960 = Fin 960"
  by (simp add: rnd_eval [of "- 43"] rnd_calc)

lemma rnd_value_59: "rnd 1024 = Fin 1024"
  by (simp add: rnd_eval [of "- 42"] rnd_calc)

lemma rnd_value_60: "rnd 2500 = Fin 2500"
  by (simp add: rnd_eval [of "- 41"] rnd_calc)

lemma rnd_value_61: "rnd 5120 = Fin 5120"
  by (simp add: rnd_eval [of "- 40"] rnd_calc)

lemma rnd_value_62: "rnd 25600 = Fin 25600"
  by (simp add: rnd_eval [of "- 38"] rnd_calc)

lemmas rnd_values =
  rnd_value_1 rnd_value_2 rnd_value_3 rnd_value_4 rnd_value_5 rnd_value_6
  rnd_value_7 rnd_value_8 rnd_value_9 rnd_value_10 rnd_value_11 rnd_value_12
  rnd_value_13 rnd_value_14 rnd_value_15 rnd_value_16 rnd_value_17 rnd_value_18
  rnd_value_19 rnd_value_20 rnd_value_21 rnd_value_22 rnd_value_23 rnd_value_24
  rnd_value_25 rnd_value_26 rnd_value_27 rnd_value_28 rnd_value_29 rnd_value_30
  rnd_value_31 rnd_value_32 rnd_value_33 rnd_value_34 rnd_value_35 rnd_value_36
  rnd_value_37 rnd_value_38 rnd_value_39 rnd_value_40 rnd_value_41 rnd_value_42
  rnd_value_43 rnd_value_44 rnd_value_45 rnd_value_46 rnd_value_47 rnd_value_48
  rnd_value_49 rnd_value_50 rnd_value_51 rnd_value_52 rnd_value_53 rnd_value_54
  rnd_value_55 rnd_value_56 rnd_value_57 rnd_value_58 rnd_value_59 rnd_value_60
  rnd_value_61 rnd_value_62

lemma pairwise_sum_short: "length a < 8 \<Longrightarrow> pairwise_sum a = foldl fadd (Fin 0) a"
  by (simp add: pairwise_sum.simps [of a])



lemma accumulate8_block:
  "8 \<le> length xs \<Longrightarrow> accumulate8 r xs = accumulate8 (add8 r (take 8 xs)) (drop 8 xs)"
  by (simp add: accumulate8.simps [of r xs])

lemmas frame_calc = to_frame_def row_def getitem_def iloc_def series_mean_def series_sum_def
  pairwise_sum_short series_mul_scalar_def series_div_def f64_of_int_def f64_of_nat_def

lemma efficiency_spec_rows:
  "efficiency (to_frame spec_rows) = Inr (Fin (7024657621902223 / 70368744177664))"
  by (simp add: efficiency_def spec_rows_def frame_calc rnd_values)

lemma regular_rowI:
  assumes "0 < c" and "c < 2 ^ 63" and "0 < t"
    and "pow2 j \<le> of_int c / t" and "of_int c / t \<le> pow2 k" and "- 990 \<le> j" and "k \<le> 990"
  shows "regular_row (row n a s c t)"
  using assms pow2_mono [of "- 990" j] pow2_mono [of k 990]
  by (simp add: regular_row_def row_def)

lemma show_nat_99: "show_nat 99 = ''99''"
  by (simp add: show_nat.simps [of 99] show_nat.simps [of 9])

lemma show_nat_8: "show_nat 8 = ''8''"
  by (simp add: show_nat.simps [of 8])

lemma format_spec_efficiency:
  "format_1f (Fin (7024657621902223 / 70368744177664)) = ''99.8''"
  by (simp add: format_1f_def round_even_def Let_def floor_rat_numeral show_nat_99 show_nat_8)

lemma normalized_spec_rows:
  "theoretical_normalized (to_frame spec_rows) =
     Inr [Fin 10, Fin (7505999378950827 / 140737488355328),
          Fin (4691249611844267 / 17592186044416)]"
  by (simp add: theoretical_normalized_def spec_rows_def frame_calc rnd_values)





lemma percent_dyadic:
  "map percent dyadic_rows = [Fin 50, Fin 25, Fin 100]"
  by (simp add: dyadic_rows_def percent_def row_def f64_of_int_def rnd_values)

lemma regular_dyadic_rows: "\<forall>r\<in>set dyadic_rows. regular_row r"
proof -
  have "regular_row (row 8 1 (1 / 2) 1 2)"
    by (rule regular_rowI [of _ _ "- 1" 0]) (simp_all add: pow2_def)
  moreover have "regular_row (row 16 2 (1 / 2) 1 4)"
    by (rule regular_rowI [of _ _ "- 2" 0]) (simp_all add: pow2_def)
  moreover have "regular_row (row 32 3 (1 / 2) 1 1)"
    by (rule regular_rowI [of _ _ 0 0]) (simp_all add: pow2_def)
  ultimately show ?thesis by (simp add: dyadic_rows_def)
qed

lemma sum_list_mset_cong:
  fixes xs ys :: "rat list"
  assumes "mset xs = mset ys"
  shows "sum_list xs = sum_list ys"
proof -
  have "sum_list xs = sum_mset (mset xs)" by (simp add: sum_mset_sum_list)
  also have "\<dots> = sum_mset (mset ys)" by (simp only: assms)
  also have "\<dots> = sum_list ys" by (simp add: sum_mset_sum_list)
  finally show ?thesis .
qed

lemma exact_sums_agree:
  assumes "mset xs = mset ys" and "exact_sum xs" and "exact_sum ys"
  shows "series_sum xs = series_sum ys"
proof -
  have "mset (map value_of xs) = mset (map value_of ys)"
    using assms(1) by (metis mset_map)
  then have "sum_list (map value_of xs) = sum_list (map value_of ys)"
    by (rule sum_list_mset_cong)
  then show ?thesis using assms(2,3) by (simp add: exact_sum_def)
qed


section \<open>The claims\<close>

text \<open>
  C1. For a table with at least one row whose first theoretical complexity is not zero,
  the normalized series has as many elements as the table has rows, and its element \<open>i\<close>
  is the theoretical complexity of row \<open>i\<close> times the quotient of the first actual time
  by the first theoretical complexity.
\<close>

theorem C1_normalized_elements:
  assumes "has_table d rows" and "rows \<noteq> []" and "theoreticalComplexity (rows ! 0) \<noteq> Fin 0"
  shows "\<exists>ys. theoretical_normalized d = Inr ys \<and> length ys = length rows \<and>
     (\<forall>i<length rows. ys ! i = fmul (theoreticalComplexity (rows ! i))
         (fdiv (actualTime (rows ! 0)) (theoreticalComplexity (rows ! 0))))"
  using normalized_table [OF assms(1,2)] by simp

theorem C1_normalized_elements_witness:
  "has_table (to_frame spec_rows) spec_rows \<and> spec_rows \<noteq> [] \<and>
   theoreticalComplexity (spec_rows ! 0) \<noteq> Fin 0 \<and>
   (\<exists>ys. theoretical_normalized (to_frame spec_rows) = Inr ys \<and> length ys = 3 \<and>
      ys ! 1 = fmul (Fin 512) (fdiv (Fin 10) (Fin 96)))"
proof -
  have h: "has_table (to_frame spec_rows) spec_rows" by (rule has_table_to_frame)
  have n: "spec_rows \<noteq> []" by (simp add: spec_rows_def)
  have z: "theoreticalComplexity (spec_rows ! 0) \<noteq> Fin 0" by (simp add: spec_rows_def row_def)
  obtain ys where ys: "theoretical_normalized (to_frame spec_rows) = Inr ys"
      "length ys = length spec_rows"
      "\<forall>i<length spec_rows. ys ! i = fmul (theoreticalComplexity (spec_rows ! i))
         (fdiv (actualTime (spec_rows ! 0)) (theoreticalComplexity (spec_rows ! 0)))"
    using C1_normalized_elements [OF h n z] by blast
  have "length ys = 3" using ys(2) by (simp add: spec_rows_def)
  moreover have "ys ! 1 = fmul (theoreticalComplexity (spec_rows ! 1))
         (fdiv (actualTime (spec_rows ! 0)) (theoreticalComplexity (spec_rows ! 0)))"
    using ys(3) by (simp add: spec_rows_def)
  then have "ys ! 1 = fmul (Fin 512) (fdiv (Fin 10) (Fin 96))"
    by (simp only: spec_rows_def row_def nth_Cons_0 nth_Cons_Suc One_nat_def
        measurement_row.simps)
  ultimately show ?thesis using h n z ys(1) by blast
qed



text \<open>
  C3, as the specification states it: on a table whose first theoretical complexity is
  zero, and on the empty table, the normalization fails instead of yielding an infinity
  or NaN. It does not hold: the one-row table \<open>(8, 10.0, 0.5, 100, 0.0)\<close> is normalized
  to the series with the single element NaN, and no error is raised.
\<close>

theorem C3_zero_anchor_counterexample:
  "theoretical_normalized (to_frame [row 8 10 (1 / 2) 100 0]) = Inr [NaN]"
  by (simp add: theoretical_normalized_def to_frame_def row_def getitem_def iloc_def
      series_mul_scalar_def signed_inf_def)

text \<open>
  C3, amended: on the empty table the normalization fails with an \<^verbatim>\<open>IndexError\<close>. On a
  table whose first theoretical complexity is zero it does not fail: it returns a series
  as long as the table, none of whose elements is a finite number.
\<close>

theorem C3_empty_fails_zero_is_not_finite:
  assumes "has_table d rows"
  shows "(rows = [] \<longrightarrow> theoretical_normalized d = Inl IndexError) \<and>
     (rows \<noteq> [] \<and> theoreticalComplexity (rows ! 0) = Fin 0 \<longrightarrow>
        (\<exists>ys. theoretical_normalized d = Inr ys \<and> length ys = length rows \<and>
           (\<forall>y\<in>set ys. \<not> is_fin y)))"
proof (intro conjI impI)
  assume "rows = []"
  with assms show "theoretical_normalized d = Inl IndexError"
    by (simp add: normalized_empty)
next
  assume a: "rows \<noteq> [] \<and> theoreticalComplexity (rows ! 0) = Fin 0"
  with normalized_table [OF assms]
  show "\<exists>ys. theoretical_normalized d = Inr ys \<and> length ys = length rows \<and>
           (\<forall>y\<in>set ys. \<not> is_fin y)"
    by (auto simp: fmul_nonfinite fdiv_zero_nonfinite)
qed

theorem C3_empty_fails_zero_is_not_finite_witness:
  "has_table (to_frame []) [] \<and> theoretical_normalized (to_frame []) = Inl IndexError \<and>
   has_table (to_frame [row 8 10 (1 / 2) 100 0]) [row 8 10 (1 / 2) 100 0] \<and>
   theoreticalComplexity ([row 8 10 (1 / 2) 100 0] ! 0) = Fin 0 \<and>
   (\<exists>ys. theoretical_normalized (to_frame [row 8 10 (1 / 2) 100 0]) = Inr ys \<and>
      length ys = 1 \<and> \<not> is_fin (ys ! 0))"
proof -
  have a: "has_table (to_frame []) []" by (rule has_table_to_frame)
  have b: "has_table (to_frame [row 8 10 (1 / 2) 100 0]) [row 8 10 (1 / 2) 100 0]"
    by (rule has_table_to_frame)
  have z: "theoreticalComplexity ([row 8 10 (1 / 2) 100 0] ! 0) = Fin 0" by (simp add: row_def)
  have "\<exists>ys. theoretical_normalized (to_frame [row 8 10 (1 / 2) 100 0]) = Inr ys \<and>
      length ys = 1 \<and> (\<forall>y\<in>set ys. \<not> is_fin y)"
    using C3_empty_fails_zero_is_not_finite [OF b] z by simp
  then have "\<exists>ys. theoretical_normalized (to_frame [row 8 10 (1 / 2) 100 0]) = Inr ys \<and>
      length ys = 1 \<and> \<not> is_fin (ys ! 0)"
    by (metis nth_mem zero_less_one)
  then show ?thesis using C3_empty_fails_zero_is_not_finite [OF a] a b z by simp
qed
text \<open>
  C4, as the specification states it: on the three rows of its example the efficiency is
  the mean of \<open>100/96\<close>, \<open>500/512\<close> and \<open>2500/2560\<close> times 100, which is about \<open>99.1\<close>
  percent. The number does not hold: the efficiency of these rows is the binary64 number
  \<open>99.8263888888889\<close>, which is not within \<open>0.05\<close> of \<open>99.1\<close>.
\<close>

theorem C4_example_is_not_99_1:
  "efficiency (to_frame spec_rows) = Inr (Fin (7024657621902223 / 70368744177664)) \<and>
   \<not> \<bar>7024657621902223 / 70368744177664 - 991 / 10\<bar> < (1 / 20 :: rat)"
  by (simp add: efficiency_spec_rows)

text \<open>
  C4, amended: on the three rows of the example the efficiency is the binary64 number
  \<open>99.8263888888889\<close>. It is within \<open>10\<^sup>-\<^sup>1\<^sup>2\<close> of the mean of \<open>100/96\<close>, \<open>500/512\<close> and
  \<open>2500/2560\<close> times 100, which is \<open>14375/144\<close>, and the caption shows it as \<open>99.8\<close>.
\<close>

theorem C4_example_is_99_8:
  "efficiency (to_frame spec_rows) = Inr (Fin (7024657621902223 / 70368744177664)) \<and>
   arithmetic_mean (map exact_percent spec_rows) = (100 / 96 + 500 / 512 + 2500 / 2560) / 3 * 100 \<and>
   \<bar>7024657621902223 / 70368744177664 - (100 / 96 + 500 / 512 + 2500 / 2560) / 3 * 100\<bar>
     < (1 / 10 ^ 12 :: rat) \<and>
   format_1f (Fin (7024657621902223 / 70368744177664)) = ''99.8''"
proof -
  have "arithmetic_mean (map exact_percent spec_rows) =
      (100 / 96 + 500 / 512 + 2500 / 2560) / 3 * 100"
    by (simp add: arithmetic_mean_def exact_percent_def spec_rows_def row_def)
  moreover have
    "\<bar>7024657621902223 / 70368744177664 - (100 / 96 + 500 / 512 + 2500 / 2560) / 3 * 100\<bar>
      < (1 / 10 ^ 12 :: rat)"
    by simp
  ultimately show ?thesis
    using efficiency_spec_rows format_spec_efficiency by blast
qed


text \<open>
  C5, as the specification states it: loading a CSV that lacks a required column fails,
  the check being made by the load itself. It does not hold: the example without its
  \<^verbatim>\<open>StdDev\<close> column is loaded without an error.
\<close>

theorem C5_load_succeeds_counterexample:
  "map_of no_stddev_frame ''StdDev'' = None \<and>
   read_csv no_stddev_env ''dc_analysis_results.csv'' = Inr no_stddev_frame"
  by (simp add: read_csv_def no_stddev_env_def no_stddev_frame_def to_frame_def)

text \<open>
  C5, amended: a CSV with a header that lacks a required column is loaded without an
  error, and the frame has no such column. Reading the absent column raises a
  \<^verbatim>\<open>KeyError\<close> that names it, and the run ends in an error at a statement after the
  load. When \<^verbatim>\<open>StdDev\<close> is absent and \<^verbatim>\<open>GridSize\<close> and \<^verbatim>\<open>ActualTime\<close> are
  present, that error is \<^verbatim>\<open>KeyError('StdDev')\<close>, raised by the first drawing call.
\<close>

theorem C5_missing_column_fails_at_use:
  assumes "csv_files e ''dc_analysis_results.csv'' = Some d" and "d \<noteq> []"
    and "c \<in> set required_columns" and "map_of d c = None"
  shows "read_csv e ''dc_analysis_results.csv'' = Inr d \<and>
     getitem d c = Inl (KeyError c) \<and>
     (\<exists>err. script e = Inl err) \<and>
     (c = ''StdDev'' \<and> map_of d ''GridSize'' \<noteq> None \<and> map_of d ''ActualTime'' \<noteq> None \<longrightarrow>
        script e = Inl (KeyError ''StdDev''))"
proof -
  have load: "read_csv e ''dc_analysis_results.csv'' = Inr d"
    using assms(1,2) by (simp add: read_csv_def)
  have sc: "script e = run (statements e) (loaded d)"
    by (simp add: script_def load)
  have fails: "\<exists>err. script e = Inl err"
  proof (cases "script e")
    case (Inl err)
    then show ?thesis by blast
  next
    case (Inr s)
    then have "map_of (df (loaded d)) c \<noteq> None"
      using script_reads_required [OF _ assms(3)] sc by simp
    then show ?thesis using assms(4) by (simp add: loaded_def)
  qed
  have std: "script e = Inl (KeyError ''StdDev'')"
    if "c = ''StdDev''" "map_of d ''GridSize'' \<noteq> None" "map_of d ''ActualTime'' \<noteq> None"
  proof -
    have "errorbar_stmt (loaded d) = Inl (KeyError ''StdDev'')"
      using that assms(4)
      by (auto simp: errorbar_stmt_def loaded_def getitem_def split: option.splits)
    then show ?thesis by (simp add: sc statements_def)
  qed
  show ?thesis using load fails std assms(4) by (simp add: getitem_None)
qed

theorem C5_missing_column_fails_at_use_witness:
  "csv_files no_stddev_env ''dc_analysis_results.csv'' = Some no_stddev_frame \<and>
   no_stddev_frame \<noteq> [] \<and> ''StdDev'' \<in> set required_columns \<and>
   map_of no_stddev_frame ''StdDev'' = None \<and>
   read_csv no_stddev_env ''dc_analysis_results.csv'' = Inr no_stddev_frame \<and>
   script no_stddev_env = Inl (KeyError ''StdDev'')"
proof -
  have a: "csv_files no_stddev_env ''dc_analysis_results.csv'' = Some no_stddev_frame"
    by (simp add: no_stddev_env_def)
  have b: "no_stddev_frame \<noteq> []" by (simp add: no_stddev_frame_def to_frame_def)
  have c: "''StdDev'' \<in> set required_columns" by (simp add: required_columns_def)
  have d: "map_of no_stddev_frame ''StdDev'' = None"
    by (simp add: no_stddev_frame_def to_frame_def)
  have e: "map_of no_stddev_frame ''GridSize'' \<noteq> None"
    "map_of no_stddev_frame ''ActualTime'' \<noteq> None"
    by (simp_all add: no_stddev_frame_def to_frame_def)
  show ?thesis using C5_missing_column_fails_at_use [OF a b c d] a b c d e by simp
qed



text \<open>
  C7, as the specification states it: the efficiency of a table does not change when its
  rows are permuted. It does not hold: binary64 addition is not associative. The rows
  \<open>(8, 1.0, 0.5, 2, 10.0)\<close>, \<open>(16, 2.0, 0.5, 11, 10.0)\<close>, \<open>(32, 3.0, 0.5, 11, 10.0)\<close> have
  the efficiency \<open>80.0\<close>; with the first row moved to the end they have the efficiency
  \<open>80.00000000000001\<close>.
\<close>

theorem C7_rotated_rows_differ:
  "mset (rotate1 order_rows) = mset order_rows \<and>
   efficiency (to_frame order_rows) = Inr (Fin 80) \<and>
   efficiency (to_frame (rotate1 order_rows)) =
     Inr (Fin (5629499534213121 / 70368744177664))"
  by (simp add: efficiency_def order_rows_def frame_calc rnd_values)

text \<open>
  C7, amended: a table and a permutation of it have the same percentages, as a multiset.
  Their efficiencies are equal when the sums of the percentages are exact in both orders.
  In general they are equal up to rounding: with fewer than \<open>2\<^sup>2\<^sup>0\<close> rows, all of them
  regular, both are finite and they differ by at most \<open>(n + 5) / 2\<^sup>5\<^sup>1\<close> of the arithmetic
  mean of the exact percentages, where \<open>n\<close> is the number of rows.
\<close>

theorem C7_permutation_up_to_rounding:
  assumes "has_table d rows" and "has_table d' rows'" and "mset rows' = mset rows"
    and "rows \<noteq> []"
    and "\<forall>r\<in>set rows. valid_row r \<and> theoreticalComplexity r \<noteq> Fin 0"
  shows "mset (map percent rows') = mset (map percent rows) \<and>
     (exact_sum (map percent rows) \<and> exact_sum (map percent rows') \<longrightarrow>
        efficiency d' = efficiency d) \<and>
     (length rows < 2 ^ 20 \<and> (\<forall>r\<in>set rows. regular_row r) \<longrightarrow>
        (\<exists>v v'. efficiency d = Inr (Fin v) \<and> efficiency d' = Inr (Fin v') \<and>
           \<bar>v' - v\<bar> \<le>
             arithmetic_mean (map exact_percent rows) * of_nat (length rows + 5) / 2 ^ 51))"
proof -
  have ms: "mset (map percent rows') = mset (map percent rows)"
    using assms(3) by (metis mset_map)
  have len: "length rows' = length rows"
    using assms(3) by (rule mset_eq_length)
  have set: "set rows' = set rows"
    using assms(3) by (rule mset_eq_setD)
  have ne: "rows' \<noteq> []" using len assms(4) by auto
  have v: "\<forall>r\<in>set rows'. valid_row r \<and> theoreticalComplexity r \<noteq> Fin 0"
    using assms(5) set by simp
  have e: "efficiency d =
      Inr (fdiv (series_sum (map percent rows)) (f64_of_nat (length rows)))"
    using assms(1,4,5) by (rule efficiency_valid)
  have e': "efficiency d' =
      Inr (fdiv (series_sum (map percent rows')) (f64_of_nat (length rows)))"
    using efficiency_valid [OF assms(2) ne v] by (simp only: len)
  have exact: "efficiency d' = efficiency d"
    if "exact_sum (map percent rows)" and "exact_sum (map percent rows')"
    using exact_sums_agree [OF ms that(2,1)] by (simp only: e e')
  have close: "\<exists>v v'. efficiency d = Inr (Fin v) \<and> efficiency d' = Inr (Fin v') \<and>
      \<bar>v' - v\<bar> \<le>
        arithmetic_mean (map exact_percent rows) * of_nat (length rows + 5) / 2 ^ 51"
    if l: "length rows < 2 ^ 20" and g: "\<forall>r\<in>set rows. regular_row r"
  proof -
    define M where "M = arithmetic_mean (map exact_percent rows)"
    define B where "B = M * of_nat (length rows + 5) / 2 ^ 52"
    have l': "length rows' < 2 ^ 20" using l by (simp only: len)
    have g': "\<forall>r\<in>set rows'. regular_row r" using g by (simp only: set)
    have "mset (map exact_percent rows') = mset (map exact_percent rows)"
      using assms(3) by (metis mset_map)
    then have "sum_list (map exact_percent rows') = sum_list (map exact_percent rows)"
      by (rule sum_list_mset_cong)
    then have M': "arithmetic_mean (map exact_percent rows') = M"
      by (simp add: M_def arithmetic_mean_def len)
    obtain x where x: "efficiency d = Inr (Fin x)" "\<bar>x - M\<bar> \<le> B"
      using efficiency_error [OF assms(1,4) l g] unfolding M_def B_def by blast
    obtain y where y: "efficiency d' = Inr (Fin y)" "\<bar>y - M\<bar> \<le> B"
      using efficiency_error [OF assms(2) ne l' g'] unfolding M' len B_def by blast
    have "\<bar>y - x\<bar> \<le> 2 * B" using x(2) y(2) by linarith
    also have "2 * B = M * of_nat (length rows + 5) / 2 ^ 51" by (simp add: B_def)
    finally show ?thesis using x(1) y(1) unfolding M_def by blast
  qed
  show ?thesis using ms exact close by blast
qed

text \<open>
  The rows \<open>(8, 1.0, 0.5, 1, 2.0)\<close>, \<open>(16, 2.0, 0.5, 1, 4.0)\<close>, \<open>(32, 3.0, 0.5, 1, 1.0)\<close>
  have the percentages 50, 25 and 100, whose sums are exact in every order.
\<close>

theorem C7_permutation_up_to_rounding_witness:
  "mset (rev dyadic_rows) = mset dyadic_rows \<and>
   mset (map percent (rev dyadic_rows)) = mset (map percent dyadic_rows) \<and>
   exact_sum (map percent dyadic_rows) \<and> exact_sum (map percent (rev dyadic_rows)) \<and>
   efficiency (to_frame (rev dyadic_rows)) = efficiency (to_frame dyadic_rows) \<and>
   (\<exists>v v'. efficiency (to_frame dyadic_rows) = Inr (Fin v) \<and>
      efficiency (to_frame (rev dyadic_rows)) = Inr (Fin v') \<and>
      \<bar>v' - v\<bar> \<le>
        arithmetic_mean (map exact_percent dyadic_rows) * of_nat (length dyadic_rows + 5) / 2 ^ 51)"
proof -
  have h: "has_table (to_frame dyadic_rows) dyadic_rows"
    and h': "has_table (to_frame (rev dyadic_rows)) (rev dyadic_rows)"
    by (rule has_table_to_frame)+
  have m: "mset (rev dyadic_rows) = mset dyadic_rows" by simp
  have n: "dyadic_rows \<noteq> []" by (simp add: dyadic_rows_def)
  have v: "\<forall>r\<in>set dyadic_rows. valid_row r \<and> theoreticalComplexity r \<noteq> Fin 0"
    by (simp add: dyadic_rows_def row_def valid_row_def)
  have l: "length dyadic_rows < 2 ^ 20" by (simp add: dyadic_rows_def)
  have x: "exact_sum (map percent dyadic_rows)"
    by (simp add: percent_dyadic exact_sum_def series_sum_def pairwise_sum_short rnd_values)
  have x': "exact_sum (map percent (rev dyadic_rows))"
    by (simp add: rev_map [symmetric] percent_dyadic exact_sum_def series_sum_def
        pairwise_sum_short rnd_values)
  show ?thesis
    using C7_permutation_up_to_rounding [OF h h' m n v] m x x' l regular_dyadic_rows
    by blast
qed


text \<open>
  C8. No statement after the load changes the table: whenever a statement succeeds, the
  frame of the state it returns is the frame of the state it was given, and at the end of
  a successful run the frame is the one that was loaded.
\<close>

theorem C8_table_unchanged:
  "(\<forall>f\<in>set (statements e). \<forall>s s'. f s = Inr s' \<longrightarrow> df s' = df s) \<and>
   (\<forall>s. script e = Inr s \<longrightarrow> read_csv e ''dc_analysis_results.csv'' = Inr (df s))"
proof (intro conjI ballI allI impI)
  fix f s s'
  assume "f \<in> set (statements e)" and "f s = Inr s'"
  then show "df s' = df s" by (rule stmt_keeps_df)
next
  fix s
  assume "script e = Inr s"
  then obtain d where d: "read_csv e ''dc_analysis_results.csv'' = Inr d"
      "run (statements e) (loaded d) = Inr s"
    by (auto simp: script_def and_then_eq_Inr)
  have "df s = df (loaded d)"
    using run_keeps_df [OF stmts_keep_df d(2)] by simp
  then show "read_csv e ''dc_analysis_results.csv'' = Inr (df s)"
    using d(1) by (simp add: loaded_def)
qed

theorem C8_table_unchanged_witness:
  "errorbar_stmt \<in> set (statements spec_env) \<and>
   (\<exists>s'. errorbar_stmt (loaded (to_frame spec_rows)) = Inr s' \<and> df s' = to_frame spec_rows) \<and>
   (\<exists>s. script spec_env = Inr s \<and> df s = to_frame spec_rows)"
proof -
  have m: "errorbar_stmt \<in> set (statements spec_env)" by (simp add: statements_def)
  obtain s' where s': "errorbar_stmt (loaded (to_frame spec_rows)) = Inr s'"
    by (simp add: errorbar_stmt_def loaded_def to_frame_def getitem_def)
  have "df s' = df (loaded (to_frame spec_rows))"
    using C8_table_unchanged [of spec_env] m s' by blast
  then have 1: "df s' = to_frame spec_rows" by (simp add: loaded_def)
  obtain s where s: "script spec_env = Inr s" using script_spec_env by blast
  have "read_csv spec_env ''dc_analysis_results.csv'' = Inr (df s)"
    using C8_table_unchanged [of spec_env] s by blast
  then have 2: "df s = to_frame spec_rows"
    by (simp add: read_csv_def spec_env_def to_frame_def)
  show ?thesis using m s' 1 s 2 by blast
qed




text \<open>
  C10. Two tables with the same actual comparisons and the same theoretical complexities,
  whatever their grid sizes, actual times and standard deviations, have the same
  efficiency.
\<close>

theorem C10_efficiency_ignores_timing:
  assumes "has_table d1 rows1" and "has_table d2 rows2"
    and "map actualComparisons rows1 = map actualComparisons rows2"
    and "map theoreticalComplexity rows1 = map theoreticalComplexity rows2"
  shows "efficiency d1 = efficiency d2"
proof -
  have "map (f64_of_int \<circ> actualComparisons) rows1 = map (f64_of_int \<circ> actualComparisons) rows2"
    using arg_cong [OF assms(3), of "map f64_of_int"] by simp
  then have "map_of d1 ''ActualComparisons'' = map_of d2 ''ActualComparisons''"
    using assms(1,2) by (simp add: has_table_def o_def)
  moreover have "map_of d1 ''TheoreticalComplexity'' = map_of d2 ''TheoreticalComplexity''"
    using assms(1,2,4) by (simp add: has_table_def)
  ultimately show ?thesis by (simp add: efficiency_def getitem_def)
qed

theorem C10_efficiency_ignores_timing_witness:
  "has_table (to_frame spec_rows) spec_rows \<and>
   has_table (to_frame [row 9 11 1 100 96, row 17 46 3 500 512, row 33 201 9 2500 2560])
     [row 9 11 1 100 96, row 17 46 3 500 512, row 33 201 9 2500 2560] \<and>
   map actualComparisons spec_rows =
     map actualComparisons [row 9 11 1 100 96, row 17 46 3 500 512, row 33 201 9 2500 2560] \<and>
   map theoreticalComplexity spec_rows =
     map theoreticalComplexity [row 9 11 1 100 96, row 17 46 3 500 512, row 33 201 9 2500 2560] \<and>
   efficiency (to_frame spec_rows) =
     efficiency (to_frame [row 9 11 1 100 96, row 17 46 3 500 512, row 33 201 9 2500 2560])"
proof -
  let ?other = "[row 9 11 1 100 96, row 17 46 3 500 512, row 33 201 9 2500 2560]"
  have a: "has_table (to_frame spec_rows) spec_rows" by (rule has_table_to_frame)
  have b: "has_table (to_frame ?other) ?other" by (rule has_table_to_frame)
  have c: "map actualComparisons spec_rows = map actualComparisons ?other"
    by (simp add: spec_rows_def row_def)
  have d: "map theoreticalComplexity spec_rows = map theoreticalComplexity ?other"
    by (simp add: spec_rows_def row_def)
  show ?thesis using C10_efficiency_ignores_timing [OF a b c d] a b c d by blast
qed

end
